theory Spec2Isabelle
  imports Main "HOL-Library.Sublist"
begin

section \<open>Python values\<close>

text \<open>
  A Python \<open>str\<close> is a sequence of Unicode code points, so \<open>len\<close> and slicing count
  code points: a string value is a list of code points.  Identifiers of the program
  (attribute names, class names) are ASCII and are kept as HOL strings; \<open>ascii\<close> turns
  an ASCII literal of the source into a string value.
\<close>

type_synonym pystr = "nat list"

definition ascii :: "string \<Rightarrow> pystr" where
  "ascii s = map of_char s"

section \<open>util\_override.py: the debug-log key sanitizer\<close>

datatype level = DEBUG | INFO

text \<open>\<open>s[:n]\<close> for a Python integer \<open>n\<close> (a negative bound counts from the end).\<close>

definition slice_to :: "pystr \<Rightarrow> int \<Rightarrow> pystr" where
  "slice_to s n = (if 0 \<le> n then take (nat n) s else take (length s - nat (- n)) s)"

text \<open>
  \<open>_truncate(obj, max_len)\<close>.  \<open>json.dumps\<close> and \<open>str\<close> belong to the Python runtime and
  are parameters: \<open>json_dumps obj = None\<close> stands for \<open>json.dumps\<close> raising, which the
  \<open>except\<close> clause answers with \<open>str(obj)\<close>.
\<close>

definition py_truncate :: "('o \<Rightarrow> pystr option) \<Rightarrow> ('o \<Rightarrow> pystr) \<Rightarrow> 'o \<Rightarrow> int \<Rightarrow> pystr" where
  "py_truncate json_dumps str obj max_len =
     (let s = (case json_dumps obj of Some j \<Rightarrow> j | None \<Rightarrow> str obj) in
      if int (length s) > max_len then slice_to s max_len @ ascii ''...'' else s)"

text \<open>
  The line handed to the logger.  The f-string of the source interpolates the context
  label, the set of extra keys and the truncated rendering into one message; the three
  interpolated parts are kept apart here (the textual order in which Python prints the
  elements of a set is not fixed).
\<close>

record log_line =
  severity :: level
  label :: pystr
  extras :: "pystr set"
  rendering :: pystr

text \<open>
  \<open>log_extra_keys(log, where, dictionary, allowed_keys)\<close>.  A dictionary is the list of
  its items.  \<open>env\<close> is the value of the environment variable
  \<open>CARCONNECTIVITY_SHOW_EXTRA_KEYS\<close> (\<open>None\<close> when it is unset);
  \<open>config_remove_credentials\<close> is the framework's, hence a parameter.  The result is the
  line logged, \<open>None\<close> when the function returns without logging.
\<close>

definition log_extra_keys ::
  "(('v \<Rightarrow> pystr option) \<times> ('v \<Rightarrow> pystr)) \<Rightarrow> ((pystr \<times> 'a) list \<Rightarrow> 'v) \<Rightarrow> pystr option \<Rightarrow>
   pystr \<Rightarrow> (pystr \<times> 'a) list \<Rightarrow> pystr set option \<Rightarrow> log_line option" where
  "log_extra_keys runtime config_remove_credentials env where_label dictionary allowed_keys =
     (let allowed_keys = (case allowed_keys of None \<Rightarrow> {} | Some a \<Rightarrow> a);
          extra_keys = set (map fst dictionary) - allowed_keys
      in if extra_keys = {} then None
         else
           let show_info = ((case env of None \<Rightarrow> ascii ''0'' | Some v \<Rightarrow> v)
                              \<in> set [ascii ''1'', ascii ''true'', ascii ''True'']);
               sanitized = config_remove_credentials dictionary;
               msg = py_truncate (fst runtime) (snd runtime) sanitized 300
           in Some \<lparr>severity = (if show_info then INFO else DEBUG), label = where_label,
                     extras = extra_keys, rendering = msg\<rparr>)"

text \<open>
  The toggle as the specification words it: \<open>1\<close> matched exactly, \<open>true\<close> matched without
  regard to case.  Used only to compare the specification with the code.
\<close>

text \<open>
  The string that \<open>_truncate\<close> measures: the JSON serialisation of the object, or its
  \<open>str\<close> when serialising raises.  An auxiliary name for stating the properties.
\<close>

definition serialized :: "('o \<Rightarrow> pystr option) \<Rightarrow> ('o \<Rightarrow> pystr) \<Rightarrow> 'o \<Rightarrow> pystr" where
  "serialized json_dumps str obj = (case json_dumps obj of Some j \<Rightarrow> j | None \<Rightarrow> str obj)"

definition lower_cp :: "nat \<Rightarrow> nat" where
  "lower_cp c = (if 65 \<le> c \<and> c \<le> 90 then c + 32 else c)"

definition spec_show_info :: "pystr option \<Rightarrow> bool" where
  "spec_show_info env =
     (case env of None \<Rightarrow> False
      | Some v \<Rightarrow> v = ascii ''1'' \<or> map lower_cp v = ascii ''true'')"

section \<open>Python objects\<close>

text \<open>
  The entity classes mutate shared objects (an attribute taken over from the origin is
  the very object the origin holds), so objects live in an explicit store.  An object is
  its attribute dictionary; a reference is an address of the store.  \<open>next_ref\<close> is the next
  free address.
\<close>

type_synonym ref = nat

datatype val = VNone | VStr pystr | VBool bool | VRef ref

datatype error = AttributeError string

type_synonym obj = "string \<Rightarrow> val option"

record heap =
  cells :: "ref \<Rightarrow> obj"
  next_ref :: ref

definition bindE :: "error + 'a \<Rightarrow> ('a \<Rightarrow> error + 'b) \<Rightarrow> error + 'b" where
  "bindE m k = (case m of Inl e \<Rightarrow> Inl e | Inr x \<Rightarrow> k x)"

text \<open>Statements run in sequence; the first one that raises ends the run.\<close>

fun steps :: "(heap \<Rightarrow> error + heap) list \<Rightarrow> heap \<Rightarrow> error + heap" where
  "steps [] h = Inr h"
| "steps (s # ss) h = bindE (s h) (steps ss)"

definition put :: "ref \<Rightarrow> string \<Rightarrow> val \<Rightarrow> heap \<Rightarrow> heap" where
  "put r f v h = h\<lparr>cells := (cells h)(r := (cells h r)(f \<mapsto> v))\<rparr>"

text \<open>
  \<open>hasattr\<close>, \<open>getattr\<close> and attribute assignment.  \<open>None\<close>, strings and booleans carry none
  of the attributes the program asks for, and an attribute cannot be assigned on them.
\<close>

definition hasattr :: "heap \<Rightarrow> val \<Rightarrow> string \<Rightarrow> bool" where
  "hasattr h x f = (case x of VRef r \<Rightarrow> cells h r f \<noteq> None | _ \<Rightarrow> False)"

definition getattr :: "heap \<Rightarrow> val \<Rightarrow> string \<Rightarrow> error + val" where
  "getattr h x f =
     (case x of
        VRef r \<Rightarrow> (case cells h r f of Some v \<Rightarrow> Inr v | None \<Rightarrow> Inl (AttributeError f))
      | _ \<Rightarrow> Inl (AttributeError f))"

definition setattr :: "val \<Rightarrow> string \<Rightarrow> val \<Rightarrow> heap \<Rightarrow> error + heap" where
  "setattr x f v h = (case x of VRef r \<Rightarrow> Inr (put r f v h) | _ \<Rightarrow> Inl (AttributeError f))"

text \<open>Allocation of an instance of class \<open>cls\<close>, before its \<open>__init__\<close> runs.\<close>

definition new :: "string \<Rightarrow> heap \<Rightarrow> ref \<times> heap" where
  "new cls h =
     (next_ref h, h\<lparr>cells := (cells h)(next_ref h := [''__class__'' \<mapsto> VStr (ascii cls)]),
               next_ref := Suc (next_ref h)\<rparr>)"

section \<open>The object framework\<close>

text \<open>
  Modelled from the spec: the attribute classes of the base object framework
  (\<open>StringAttribute\<close>, \<open>BooleanAttribute\<close>, \<open>DateAttribute\<close>, \<open>EnumAttribute\<close>), which are
  not part of the sources.  The specification asks of them "named, typed attributes with
  parent linkage and a settable value", default-constructed "with default/empty values"
  and "tagged as connector-supplied": a new attribute object knows its name and its
  parent, and its value is \<open>None\<close>.
\<close>

definition Attribute :: "string \<Rightarrow> string \<Rightarrow> ref \<Rightarrow> heap \<Rightarrow> ref \<times> heap" where
  "Attribute cls name parent h =
     (let (a, h1) = new cls h
      in (a, put a ''tags'' (VStr (ascii ''connector_custom''))
               (put a ''value'' VNone
                 (put a ''parent'' (VRef parent)
                   (put a ''name'' (VStr (ascii name)) h1)))))"

text \<open>
  Modelled from the spec: \<open>_set_value\<close> of the framework's attributes ("a settable
  value").  Only an attribute object, one with a \<open>value\<close>, has the method.
\<close>

definition set_value :: "val \<Rightarrow> val \<Rightarrow> heap \<Rightarrow> error + heap" where
  "set_value a v h =
     (if hasattr h a ''value'' then setattr a ''value'' v h
      else Inl (AttributeError ''_set_value''))"

text \<open>
  Modelled from the spec: \<open>GenericObject.__init__(object_id, parent, origin)\<close>, the
  constructor of the framework's attribute-container base type, which is not part of
  the sources.  It gives the instance its identifier and its parent linkage.
\<close>

definition GenericObject_init :: "ref \<Rightarrow> string \<Rightarrow> val \<Rightarrow> val \<Rightarrow> heap \<Rightarrow> error + heap" where
  "GenericObject_init self object_id parent origin h =
     Inr (put self ''parent'' parent (put self ''id'' (VStr (ascii object_id)) h))"

text \<open>The statement \<open>self.name = Cls(name='name', parent=self, tags={'connector_custom'})\<close>.\<close>

definition init_attribute :: "string \<Rightarrow> ref \<Rightarrow> string \<Rightarrow> heap \<Rightarrow> error + heap" where
  "init_attribute cls self name h =
     (let (a, h1) = Attribute cls name self h in setattr (VRef self) name (VRef a) h1)"

section \<open>specification.py\<close>

text \<open>
  \<open>_copy_attribute_from_origin(self, origin, attr_name)\<close>.  \<open>Engine\<close>,
  \<open>ExteriorDimensions\<close>, \<open>Gearbox\<close> and \<open>Specification\<close> each define this method with the
  same body.
\<close>

definition copy_attribute_from_origin :: "ref \<Rightarrow> val \<Rightarrow> string \<Rightarrow> heap \<Rightarrow> error + heap" where
  "copy_attribute_from_origin self origin attr_name h =
     (if hasattr h origin attr_name then
        bindE (getattr h origin attr_name) (\<lambda>source_attr.
        bindE (setattr (VRef self) attr_name source_attr h) (\<lambda>h1.
        if hasattr h1 source_attr ''parent''
        then setattr source_attr ''parent'' (VRef self) h1
        else Inr h1))
      else Inr h)"

text \<open>\<open>Engine(parent, origin)\<close>: allocation followed by \<open>Engine.__init__\<close>.\<close>

definition Engine :: "val \<Rightarrow> val \<Rightarrow> heap \<Rightarrow> error + (ref \<times> heap)" where
  "Engine parent origin h =
     (let (self, h0) = new ''Engine'' h in
      bindE
        (if origin \<noteq> VNone then
           steps [GenericObject_init self ''engine'' parent origin,
                  copy_attribute_from_origin self origin ''type'',
                  copy_attribute_from_origin self origin ''powerInKW'',
                  copy_attribute_from_origin self origin ''capacityInLiters''] h0
         else
           steps [GenericObject_init self ''engine'' parent VNone,
                  init_attribute ''StringAttribute'' self ''type'',
                  init_attribute ''StringAttribute'' self ''powerInKW'',
                  init_attribute ''StringAttribute'' self ''capacityInLiters''] h0)
        (\<lambda>h'. Inr (self, h')))"

definition ExteriorDimensions :: "val \<Rightarrow> val \<Rightarrow> heap \<Rightarrow> error + (ref \<times> heap)" where
  "ExteriorDimensions parent origin h =
     (let (self, h0) = new ''ExteriorDimensions'' h in
      bindE
        (if origin \<noteq> VNone then
           steps [GenericObject_init self ''exteriorDimensions'' parent origin,
                  copy_attribute_from_origin self origin ''lengthInMm'',
                  copy_attribute_from_origin self origin ''widthInMm'',
                  copy_attribute_from_origin self origin ''heightInMm''] h0
         else
           steps [GenericObject_init self ''exteriorDimensions'' parent VNone,
                  init_attribute ''StringAttribute'' self ''lengthInMm'',
                  init_attribute ''StringAttribute'' self ''widthInMm'',
                  init_attribute ''StringAttribute'' self ''heightInMm''] h0)
        (\<lambda>h'. Inr (self, h')))"

definition Gearbox :: "val \<Rightarrow> val \<Rightarrow> heap \<Rightarrow> error + (ref \<times> heap)" where
  "Gearbox parent origin h =
     (let (self, h0) = new ''Gearbox'' h in
      bindE
        (if origin \<noteq> VNone then
           steps [GenericObject_init self ''gearbox'' parent origin,
                  copy_attribute_from_origin self origin ''type''] h0
         else
           steps [GenericObject_init self ''gearbox'' parent VNone,
                  init_attribute ''StringAttribute'' self ''type''] h0)
        (\<lambda>h'. Inr (self, h')))"

text \<open>\<open>Specification._copy_nested_object_from_origin(self, origin, attr_name, object_class)\<close>.\<close>

definition copy_nested_object_from_origin ::
  "ref \<Rightarrow> val \<Rightarrow> string \<Rightarrow> (val \<Rightarrow> val \<Rightarrow> heap \<Rightarrow> error + (ref \<times> heap)) \<Rightarrow> heap \<Rightarrow> error + heap" where
  "copy_nested_object_from_origin self origin attr_name object_class h =
     (if hasattr h origin attr_name then
        bindE (getattr h origin attr_name) (\<lambda>origin_nested.
        bindE (object_class (VRef self) origin_nested h) (\<lambda>(nested, h1).
        setattr (VRef self) attr_name (VRef nested) h1))
      else
        bindE (object_class (VRef self) VNone h) (\<lambda>(nested, h1).
        setattr (VRef self) attr_name (VRef nested) h1))"

text \<open>\<open>Specification._initialize_attributes(self)\<close>.\<close>

definition initialize_attributes :: "ref \<Rightarrow> heap \<Rightarrow> error + heap" where
  "initialize_attributes self =
     steps [init_attribute ''StringAttribute'' self ''title'',
            init_attribute ''DateAttribute'' self ''manufacturing_date'',
            init_attribute ''StringAttribute'' self ''trim_level'',
            init_attribute ''StringAttribute'' self ''system_code'',
            init_attribute ''StringAttribute'' self ''system_model_id'',
            init_attribute ''StringAttribute'' self ''body'',
            init_attribute ''StringAttribute'' self ''exterior_colour'',
            init_attribute ''StringAttribute'' self ''model_year'',
            init_attribute ''EnumAttribute'' self ''steering_wheel_position'',
            (\<lambda>h. bindE (ExteriorDimensions (VRef self) VNone h) (\<lambda>(n, h1).
                    setattr (VRef self) ''exteriorDimensions'' (VRef n) h1)),
            (\<lambda>h. bindE (Engine (VRef self) VNone h) (\<lambda>(n, h1).
                    setattr (VRef self) ''engine'' (VRef n) h1)),
            (\<lambda>h. bindE (Gearbox (VRef self) VNone h) (\<lambda>(n, h1).
                    setattr (VRef self) ''gearbox'' (VRef n) h1))]"

text \<open>\<open>Specification(parent, origin)\<close>.\<close>

definition Specification :: "val \<Rightarrow> val \<Rightarrow> heap \<Rightarrow> error + (ref \<times> heap)" where
  "Specification parent origin h =
     (let (self, h0) = new ''Specification'' h in
      bindE
        (if origin \<noteq> VNone then
           steps [GenericObject_init self ''specification'' parent origin,
                  copy_attribute_from_origin self origin ''title'',
                  copy_attribute_from_origin self origin ''manufacturing_date'',
                  copy_attribute_from_origin self origin ''trim_level'',
                  copy_attribute_from_origin self origin ''system_code'',
                  copy_attribute_from_origin self origin ''system_model_id'',
                  copy_attribute_from_origin self origin ''body'',
                  copy_attribute_from_origin self origin ''exterior_colour'',
                  copy_attribute_from_origin self origin ''model_year'',
                  copy_attribute_from_origin self origin ''steering_wheel_position'',
                  copy_nested_object_from_origin self origin ''exteriorDimensions'' ExteriorDimensions,
                  copy_nested_object_from_origin self origin ''engine'' Engine,
                  copy_nested_object_from_origin self origin ''gearbox'' Gearbox] h0
         else
           steps [GenericObject_init self ''specification'' parent VNone,
                  initialize_attributes self] h0)
        (\<lambda>h'. Inr (self, h')))"

section \<open>service\_partner.py\<close>

text \<open>
  \<open>ServicePartner._copy_attributes_from_origin(self, origin)\<close>.  The body of the \<open>try\<close>
  first assigns a new attribute (\<open>h1\<close>); when the rest of the body raises, nothing more
  has been written, and the \<open>except\<close> clause runs from \<open>h1\<close>.
\<close>

definition copy_attributes_from_origin :: "ref \<Rightarrow> val \<Rightarrow> heap \<Rightarrow> error + heap" where
  "copy_attributes_from_origin self origin h =
     bindE (init_attribute ''StringAttribute'' self ''service_partner_id'' h) (\<lambda>h1.
       case (if hasattr h1 origin ''service_partner_id'' then
               bindE (getattr h1 origin ''service_partner_id'') (\<lambda>a.
               bindE (getattr h1 a ''value'') (\<lambda>v.
               if v \<noteq> VNone then
                 bindE (getattr h1 (VRef self) ''service_partner_id'') (\<lambda>mine.
                 set_value mine v h1)
               else Inr h1))
             else Inr h1)
       of Inr h2 \<Rightarrow> Inr h2
        | Inl e \<Rightarrow> init_attribute ''StringAttribute'' self ''service_partner_id'' h1)"

text \<open>\<open>ServicePartner(parent, origin)\<close>.\<close>

definition ServicePartner :: "val \<Rightarrow> val \<Rightarrow> heap \<Rightarrow> error + (ref \<times> heap)" where
  "ServicePartner parent origin h =
     (let (self, h0) = new ''ServicePartner'' h in
      bindE
        (bindE (GenericObject_init self ''service_partner'' parent VNone h0) (\<lambda>h1.
           if origin \<noteq> VNone then copy_attributes_from_origin self origin h1
           else init_attribute ''StringAttribute'' self ''service_partner_id'' h1))
        (\<lambda>h'. Inr (self, h')))"

section \<open>vehicle.py\<close>

subsection \<open>What the vehicle classes take from elsewhere\<close>

text \<open>
  Modelled from the spec: the constructors \<open>SkodaCharging(vehicle, origin)\<close>,
  \<open>SkodaClimatization(vehicle, origin)\<close> and \<open>Capabilities(vehicle)\<close> of this repository,
  whose modules are not among the sources, and the framework's default sub-entities
  \<open>Charging(vehicle)\<close> and \<open>Climatization(vehicle)\<close>.  The specification says of them
  only that they are sub-entities owned by the vehicle, built by the origin-copy
  protocol; \<open>cls\<close> names the class constructed.  A new sub-entity is linked to its vehicle; the slot \<open>origin\<close> records the
  object it was migrated from (\<open>None\<close> for a default one).  That slot is not an attribute
  of the program: it only makes "migrated from" something a property can speak about.
\<close>

definition sub_entity :: "string \<Rightarrow> ref \<Rightarrow> val \<Rightarrow> heap \<Rightarrow> error + (ref \<times> heap)" where
  "sub_entity cls vehicle origin h =
     (let (n, h0) = new cls h
      in Inr (n, put n ''origin'' origin (put n ''parent'' (VRef vehicle) h0)))"

text \<open>The statement \<open>self.name = Cls(vehicle=self, origin=origin)\<close> for such a class.\<close>

definition init_sub_entity :: "string \<Rightarrow> ref \<Rightarrow> string \<Rightarrow> val \<Rightarrow> heap \<Rightarrow> error + heap" where
  "init_sub_entity cls self name origin h =
     bindE (sub_entity cls self origin h) (\<lambda>(n, h1). setattr (VRef self) name (VRef n) h1)"

text \<open>The two statements \<open>self.name = origin.name; self.name.parent = self\<close>.\<close>

definition take_over :: "ref \<Rightarrow> val \<Rightarrow> string \<Rightarrow> heap \<Rightarrow> error + heap" where
  "take_over self origin name h =
     bindE (getattr h origin name) (\<lambda>v.
     bindE (setattr (VRef self) name v h) (\<lambda>h1.
     bindE (getattr h1 (VRef self) name) (\<lambda>mine.
     setattr mine ''parent'' (VRef self) h1)))"

text \<open>The same two statements under \<open>if hasattr(origin, 'name'):\<close>.\<close>

definition take_over_if_present :: "ref \<Rightarrow> val \<Rightarrow> string \<Rightarrow> heap \<Rightarrow> error + heap" where
  "take_over_if_present self origin name h =
     (if hasattr h origin name then take_over self origin name h else Inr h)"

text \<open>
  Modelled from the spec: \<open>GenericVehicle.__init__\<close> of the framework.  Of the base
  vehicle's fields only those the Skoda classes read are kept: \<open>manufacturer\<close> and
  \<open>climatization\<close>.  Following section 4.2 ("base attributes and nested entities are
  migrated once, at the generic-vehicle level, by the protocol in 4.1"), a field the
  origin has is taken over and re-parented, a field it lacks is default-initialized.
\<close>

definition GenericVehicle_init :: "ref \<Rightarrow> val \<Rightarrow> val \<Rightarrow> val \<Rightarrow> val \<Rightarrow> heap \<Rightarrow> error + heap" where
  "GenericVehicle_init self vin garage managing_connector origin =
     steps [(\<lambda>h. Inr (put self ''parent'' garage h)),
            (\<lambda>h. if hasattr h origin ''manufacturer'' then take_over self origin ''manufacturer'' h
                  else init_attribute ''StringAttribute'' self ''manufacturer'' h),
            (\<lambda>h. if hasattr h origin ''climatization'' then take_over self origin ''climatization'' h
                  else init_sub_entity ''Climatization'' self ''climatization'' VNone h)]"

text \<open>
  Modelled from the spec: \<open>isinstance(origin, ElectricVehicle)\<close>.  An instance carries its
  class; the electric classes are the framework's \<open>ElectricVehicle\<close> and \<open>HybridVehicle\<close>
  and the two Skoda classes deriving from them.
\<close>

definition isinstance_ElectricVehicle :: "heap \<Rightarrow> val \<Rightarrow> bool" where
  "isinstance_ElectricVehicle h x =
     (case x of
        VRef r \<Rightarrow> cells h r ''__class__'' \<in> Some ` VStr ` ascii `
                    {''ElectricVehicle'', ''HybridVehicle'', ''SkodaElectricVehicle'', ''SkodaHybridVehicle''}
      | _ \<Rightarrow> False)"

text \<open>
  Modelled from the spec: \<open>ElectricVehicle.__init__\<close> of the framework.  In the method
  resolution order of \<open>SkodaElectricVehicle(ElectricVehicle, SkodaVehicle)\<close> its
  \<open>super().__init__\<close> is \<open>SkodaVehicle.__init__\<close>, passed here as \<open>next_init\<close>.  After it,
  section 4.2: the charging of an electric origin is taken over, and "if the origin was
  a different subtype lacking it, the subtype's own default nested entity" is created.
\<close>

definition ElectricVehicle_init :: "ref \<Rightarrow> val \<Rightarrow> (heap \<Rightarrow> error + heap) \<Rightarrow> heap \<Rightarrow> error + heap" where
  "ElectricVehicle_init self origin next_init =
     steps [next_init,
            (\<lambda>h. if origin \<noteq> VNone \<and> isinstance_ElectricVehicle h origin
                  then take_over self origin ''charging'' h
                  else init_sub_entity ''Charging'' self ''charging'' VNone h)]"

text \<open>
  Modelled from the spec: \<open>CombustionVehicle.__init__\<close> of the framework, of which the
  specification names no field of its own: it hands over to the next initializer.
\<close>

definition CombustionVehicle_init :: "ref \<Rightarrow> val \<Rightarrow> (heap \<Rightarrow> error + heap) \<Rightarrow> heap \<Rightarrow> error + heap" where
  "CombustionVehicle_init self origin next_init = next_init"

text \<open>
  Modelled from the spec: \<open>HybridVehicle.__init__\<close> of the framework, a vehicle that is
  both electric and combustion.
\<close>

definition HybridVehicle_init :: "ref \<Rightarrow> val \<Rightarrow> (heap \<Rightarrow> error + heap) \<Rightarrow> heap \<Rightarrow> error + heap" where
  "HybridVehicle_init self origin next_init =
     ElectricVehicle_init self origin (CombustionVehicle_init self origin next_init)"

subsection \<open>The Skoda vehicle classes\<close>

text \<open>The brand literal of line 121: S with caron (U+0160), then \<open>koda\<close>.\<close>

definition brand :: pystr where
  "brand = 352 # ascii ''koda''"

text \<open>
  The statements \<open>self.specification.target = origin.legacy\<close> and
  \<open>self.specification.target.parent = self.specification\<close> under
  \<open>if hasattr(origin, 'legacy'):\<close>.
\<close>

definition take_over_legacy :: "ref \<Rightarrow> val \<Rightarrow> string \<Rightarrow> string \<Rightarrow> heap \<Rightarrow> error + heap" where
  "take_over_legacy self origin legacy target h =
     (if hasattr h origin legacy then
        bindE (getattr h origin legacy) (\<lambda>v.
        bindE (getattr h (VRef self) ''specification'') (\<lambda>spec.
        bindE (setattr spec target v h) (\<lambda>h1.
        bindE (getattr h1 (VRef self) ''specification'') (\<lambda>spec1.
        bindE (getattr h1 spec1 target) (\<lambda>mine.
        bindE (getattr h1 (VRef self) ''specification'') (\<lambda>spec2.
        setattr mine ''parent'' spec2 h1))))))
      else Inr h)"

text \<open>Lines 81 to 93: the specification of a migrated vehicle.\<close>

definition migrate_specification :: "ref \<Rightarrow> val \<Rightarrow> heap \<Rightarrow> error + heap" where
  "migrate_specification self origin h =
     (if hasattr h origin ''specification'' then
        bindE (getattr h origin ''specification'') (\<lambda>origin_specification.
        bindE (Specification (VRef self) origin_specification h) (\<lambda>(s, h1).
        setattr (VRef self) ''specification'' (VRef s) h1))
      else
        bindE (Specification (VRef self) VNone h) (\<lambda>(s, h1).
        bindE (setattr (VRef self) ''specification'' (VRef s) h1)
          (steps [take_over_legacy self origin ''spec_engine_fuel_type'' ''engine_fuel_type'',
                  take_over_legacy self origin ''spec_exterior_colour'' ''exterior_colour'',
                  take_over_legacy self origin ''spec_model_year'' ''model_year''])))"

text \<open>
  \<open>SkodaVehicle.__init__(self, vin, garage, managing_connector, origin)\<close>.
  \<open>SUPPORT_IMAGES\<close> is the module flag telling whether PIL could be imported.  The
  last line of the method runs on both branches.
\<close>

definition SkodaVehicle_init ::
  "bool \<Rightarrow> ref \<Rightarrow> val \<Rightarrow> val \<Rightarrow> val \<Rightarrow> val \<Rightarrow> heap \<Rightarrow> error + heap" where
  "SkodaVehicle_init SUPPORT_IMAGES self vin garage managing_connector origin h =
     bindE
       (if origin \<noteq> VNone then
          steps [GenericVehicle_init self VNone garage VNone origin,
                 take_over self origin ''capabilities'',
                 take_over self origin ''in_motion'',
                 take_over_if_present self origin ''raw_api'',
                 take_over_if_present self origin ''extras'',
                 take_over_if_present self origin ''title'',
                 take_over_if_present self origin ''system_model_id'',
                 take_over_if_present self origin ''priority'',
                 take_over_if_present self origin ''device_platform'',
                 take_over_if_present self origin ''skoda_state'',
                 take_over_if_present self origin ''workshop_mode_enabled'',
                 take_over_if_present self origin ''service_partner'',
                 take_over_if_present self origin ''renders'',
                 take_over_if_present self origin ''composite_renders'',
                 take_over_if_present self origin ''composite_render_urls'',
                 migrate_specification self origin,
                 (\<lambda>h. if SUPPORT_IMAGES
                       then bindE (getattr h origin ''_car_images'') (\<lambda>images.
                            setattr (VRef self) ''_car_images'' images h)
                       else Inr h)] h
        else
          steps [GenericVehicle_init self vin garage managing_connector VNone,
                 (\<lambda>h. bindE (getattr h (VRef self) ''climatization'') (\<lambda>own.
                         init_sub_entity ''SkodaClimatization'' self ''climatization'' own h)),
                 init_sub_entity ''Capabilities'' self ''capabilities'' VNone,
                 init_attribute ''BooleanAttribute'' self ''in_motion'',
                 init_attribute ''StringAttribute'' self ''raw_api'',
                 init_attribute ''StringAttribute'' self ''extras'',
                 init_attribute ''StringAttribute'' self ''renders'',
                 init_attribute ''StringAttribute'' self ''composite_renders'',
                 init_attribute ''StringAttribute'' self ''composite_render_urls'',
                 init_attribute ''StringAttribute'' self ''title'',
                 init_attribute ''StringAttribute'' self ''system_model_id'',
                 init_attribute ''StringAttribute'' self ''priority'',
                 init_attribute ''StringAttribute'' self ''device_platform'',
                 init_attribute ''StringAttribute'' self ''skoda_state'',
                 init_attribute ''BooleanAttribute'' self ''workshop_mode_enabled'',
                 (\<lambda>h. bindE (ServicePartner (VRef self) VNone h) (\<lambda>(n, h1).
                         setattr (VRef self) ''service_partner'' (VRef n) h1)),
                 (\<lambda>h. bindE (Specification (VRef self) VNone h) (\<lambda>(n, h1).
                         setattr (VRef self) ''specification'' (VRef n) h1)),
                 (\<lambda>h. if SUPPORT_IMAGES
                       then (let (d, h1) = new ''dict'' h
                             in setattr (VRef self) ''_car_images'' (VRef d) h1)
                       else Inr h)] h)
       (\<lambda>h1. bindE (getattr h1 (VRef self) ''manufacturer'') (\<lambda>manufacturer.
              set_value manufacturer (VStr brand) h1))"

text \<open>\<open>SkodaVehicle(vin, garage, managing_connector, origin)\<close>.\<close>

definition SkodaVehicle :: "bool \<Rightarrow> val \<Rightarrow> val \<Rightarrow> val \<Rightarrow> val \<Rightarrow> heap \<Rightarrow> error + (ref \<times> heap)" where
  "SkodaVehicle SUPPORT_IMAGES vin garage managing_connector origin h =
     (let (self, h0) = new ''SkodaVehicle'' h in
      bindE (SkodaVehicle_init SUPPORT_IMAGES self vin garage managing_connector origin h0)
        (\<lambda>h'. Inr (self, h')))"

text \<open>
  \<open>SkodaElectricVehicle(vin, garage, managing_connector, origin)\<close>.  The migration branch
  calls \<open>super().__init__(garage=garage, origin=origin)\<close>, so \<open>vin\<close> and
  \<open>managing_connector\<close> are \<open>None\<close> there.
\<close>

definition SkodaElectricVehicle ::
  "bool \<Rightarrow> val \<Rightarrow> val \<Rightarrow> val \<Rightarrow> val \<Rightarrow> heap \<Rightarrow> error + (ref \<times> heap)" where
  "SkodaElectricVehicle SUPPORT_IMAGES vin garage managing_connector origin h =
     (let (self, h0) = new ''SkodaElectricVehicle'' h in
      bindE
        (if origin \<noteq> VNone then
           bindE (ElectricVehicle_init self origin
                    (SkodaVehicle_init SUPPORT_IMAGES self VNone garage VNone origin) h0) (\<lambda>h1.
             if isinstance_ElectricVehicle h1 origin then
               bindE (getattr h1 origin ''charging'') (\<lambda>origin_charging.
               init_sub_entity ''SkodaCharging'' self ''charging'' origin_charging h1)
             else
               bindE (getattr h1 (VRef self) ''charging'') (\<lambda>own.
               init_sub_entity ''SkodaCharging'' self ''charging'' own h1))
         else
           bindE (ElectricVehicle_init self VNone
                    (SkodaVehicle_init SUPPORT_IMAGES self vin garage managing_connector VNone) h0) (\<lambda>h1.
             bindE (getattr h1 (VRef self) ''charging'') (\<lambda>own.
             init_sub_entity ''SkodaCharging'' self ''charging'' own h1)))
        (\<lambda>h'. Inr (self, h')))"

definition SkodaCombustionVehicle ::
  "bool \<Rightarrow> val \<Rightarrow> val \<Rightarrow> val \<Rightarrow> val \<Rightarrow> heap \<Rightarrow> error + (ref \<times> heap)" where
  "SkodaCombustionVehicle SUPPORT_IMAGES vin garage managing_connector origin h =
     (let (self, h0) = new ''SkodaCombustionVehicle'' h in
      bindE
        (if origin \<noteq> VNone then
           CombustionVehicle_init self origin
             (SkodaVehicle_init SUPPORT_IMAGES self VNone garage VNone origin) h0
         else
           CombustionVehicle_init self VNone
             (SkodaVehicle_init SUPPORT_IMAGES self vin garage managing_connector VNone) h0)
        (\<lambda>h'. Inr (self, h')))"

definition SkodaHybridVehicle ::
  "bool \<Rightarrow> val \<Rightarrow> val \<Rightarrow> val \<Rightarrow> val \<Rightarrow> heap \<Rightarrow> error + (ref \<times> heap)" where
  "SkodaHybridVehicle SUPPORT_IMAGES vin garage managing_connector origin h =
     (let (self, h0) = new ''SkodaHybridVehicle'' h in
      bindE
        (if origin \<noteq> VNone then
           HybridVehicle_init self origin
             (SkodaVehicle_init SUPPORT_IMAGES self VNone garage VNone origin) h0
         else
           HybridVehicle_init self VNone
             (SkodaVehicle_init SUPPORT_IMAGES self vin garage managing_connector VNone) h0)
        (\<lambda>h'. Inr (self, h')))"

section \<open>Properties of the log sanitizer\<close>

lemma ascii_dots: "ascii ''...'' = [46, 46, 46]"
  by (simp add: ascii_def)

lemma py_truncate_300:
  "py_truncate jd str obj 300 =
     (if 300 < length (serialized jd str obj)
      then take 300 (serialized jd str obj) @ ascii ''...'' else serialized jd str obj)"
  by (simp add: py_truncate_def serialized_def slice_to_def Let_def)

lemma log_extra_keys_Some:
  assumes "log_extra_keys rt rc env w d allowed = Some line"
  shows "rendering line = py_truncate (fst rt) (snd rt) (rc d) 300"
    and "extras line = set (map fst d) - (case allowed of None \<Rightarrow> {} | Some a \<Rightarrow> a)"
proof -
  from assms have "line = \<lparr>severity = severity line, label = w,
      extras = set (map fst d) - (case allowed of None \<Rightarrow> {} | Some a \<Rightarrow> a),
      rendering = py_truncate (fst rt) (snd rt) (rc d) 300\<rparr>"
    by (simp add: log_extra_keys_def Let_def split: if_splits) force+
  then show "rendering line = py_truncate (fst rt) (snd rt) (rc d) 300"
    and "extras line = set (map fst d) - (case allowed of None \<Rightarrow> {} | Some a \<Rightarrow> a)"
    by (metis log_line.select_convs(4), metis log_line.select_convs(3))
qed

text \<open>
  C6 (as the code has it).  Whenever \<open>log_extra_keys\<close> logs, the severity is INFO exactly
  when the environment variable is set to one of the three literals \<open>1\<close>, \<open>true\<close>,
  \<open>True\<close>, and DEBUG otherwise (unset included).
\<close>

theorem log_extra_keys_severity:
  assumes "log_extra_keys rt rc env w d allowed = Some line"
  shows "severity line =
           (if env \<in> {Some (ascii ''1''), Some (ascii ''true''), Some (ascii ''True'')}
            then INFO else DEBUG)"
  using assms
  by (cases env) (auto simp add: log_extra_keys_def Let_def ascii_def split: if_splits)

theorem log_extra_keys_severity_witness:
  "\<exists>line. log_extra_keys (\<lambda>_. Some [], \<lambda>_. []) id (Some (ascii ''True'')) [] [(ascii ''k'', ())] None
             = Some line \<and> severity line = INFO"
proof -
  have run: "log_extra_keys (\<lambda>_. Some [], \<lambda>_. []) id (Some (ascii ''True'')) [] [(ascii ''k'', ())] None
      = Some \<lparr>severity = INFO, label = [], extras = {ascii ''k''}, rendering = []\<rparr>"
    by (simp add: log_extra_keys_def py_truncate_def ascii_def)
  from log_extra_keys_severity [OF run] show ?thesis
    using run by simp
qed

text \<open>
  C6 as the specification states it fails: \<open>TRUE\<close> is \<open>true\<close> up to case, yet the line is
  logged at DEBUG.
\<close>

theorem log_extra_keys_upper_TRUE_is_debug:
  "spec_show_info (Some (ascii ''TRUE'')) \<and>
   map_option severity
     (log_extra_keys (\<lambda>_. Some [], \<lambda>_. []) id (Some (ascii ''TRUE'')) [] [(ascii ''k'', ())] None)
     = Some DEBUG"
  by (simp add: log_extra_keys_def py_truncate_def ascii_def spec_show_info_def lower_cp_def)

text \<open>
  C7.  \<open>log_extra_keys\<close> computes the keys of the dictionary minus the allowed keys, an
  absent \<open>allowed_keys\<close> counting as the empty set.  When the difference is empty nothing
  is logged; otherwise the line logged carries exactly that difference.
\<close>

theorem log_extra_keys_difference:
  fixes d :: "(pystr \<times> 'a) list"
  shows "(set (map fst d) - (case allowed of None \<Rightarrow> {} | Some a \<Rightarrow> a) = {}
            \<longrightarrow> log_extra_keys rt rc env w d allowed = None) \<and>
         (set (map fst d) - (case allowed of None \<Rightarrow> {} | Some a \<Rightarrow> a) \<noteq> {}
            \<longrightarrow> (\<exists>line. log_extra_keys rt rc env w d allowed = Some line \<and>
                  extras line = set (map fst d) - (case allowed of None \<Rightarrow> {} | Some a \<Rightarrow> a)))"
  by (simp add: log_extra_keys_def Let_def)

text \<open>The example of the specification, and a dictionary with no extra key.\<close>

theorem log_extra_keys_difference_witness:
  "(\<exists>line. log_extra_keys (\<lambda>_. Some [], \<lambda>_. []) id None []
        [(ascii ''a'', ()), (ascii ''b'', ()), (ascii ''secret'', ())] (Some {ascii ''a''}) = Some line \<and>
      extras line = {ascii ''b'', ascii ''secret''}) \<and>
   log_extra_keys (\<lambda>_. Some [], \<lambda>_. []) id None [] [(ascii ''a'', ())] (Some {ascii ''a''}) = None"
proof -
  have diff: "set (map fst [(ascii ''a'', ()), (ascii ''b'', ()), (ascii ''secret'', ())])
                - (case Some {ascii ''a''} of None \<Rightarrow> {} | Some a \<Rightarrow> a)
              = {ascii ''b'', ascii ''secret''}"
    by (auto simp add: ascii_def)
  have none: "set (map fst [(ascii ''a'', ())]) - (case Some {ascii ''a''} of None \<Rightarrow> {} | Some a \<Rightarrow> a) = {}"
    by simp
  from log_extra_keys_difference
         [of "[(ascii ''a'', ()), (ascii ''b'', ()), (ascii ''secret'', ())]" "Some {ascii ''a''}"
             "(\<lambda>_. Some [], \<lambda>_. [])" id None "[]"]
  have first: "\<exists>line. log_extra_keys (\<lambda>_. Some [], \<lambda>_. []) id None []
        [(ascii ''a'', ()), (ascii ''b'', ()), (ascii ''secret'', ())] (Some {ascii ''a''}) = Some line \<and>
      extras line = {ascii ''b'', ascii ''secret''}"
    unfolding diff by simp
  from log_extra_keys_difference
         [of "[(ascii ''a'', ())]" "Some {ascii ''a''}" "(\<lambda>_. Some [], \<lambda>_. [])" id None "[]"]
  have second: "log_extra_keys (\<lambda>_. Some [], \<lambda>_. []) id None [] [(ascii ''a'', ())] (Some {ascii ''a''}) = None"
    unfolding none by simp
  from first second show ?thesis by blast
qed

text \<open>
  C8.  The rendering in the logged line is the serialised form of the sanitized
  dictionary cut at 300 characters: a longer one is rendered as its first 300 characters
  followed by \<open>...\<close>, so it ends with the ellipsis and has at most 303 characters; one of
  at most 300 characters is rendered unchanged.
\<close>

theorem log_extra_keys_rendering:
  assumes "log_extra_keys (jd, str) rc env w d allowed = Some line"
  shows "(300 < length (serialized jd str (rc d)) \<longrightarrow>
            rendering line = take 300 (serialized jd str (rc d)) @ ascii ''...'' \<and>
            suffix (ascii ''...'') (rendering line) \<and> length (rendering line) \<le> 303) \<and>
         (length (serialized jd str (rc d)) \<le> 300 \<longrightarrow>
            rendering line = serialized jd str (rc d))"
proof -
  have r: "rendering line = py_truncate jd str (rc d) 300"
    using log_extra_keys_Some(1) [OF assms] by simp
  show ?thesis
    unfolding r py_truncate_300 by (simp add: ascii_dots suffix_def)
qed

theorem log_extra_keys_rendering_witness:
  "(\<exists>line. log_extra_keys (\<lambda>_. Some (replicate 301 97), \<lambda>_. []) id None [] [(ascii ''k'', ())] None = Some line \<and>
      rendering line = replicate 300 97 @ ascii ''...'' \<and> length (rendering line) \<le> 303) \<and>
   (\<exists>line. log_extra_keys (\<lambda>_. None, \<lambda>_. ascii ''{}'') id None [] [(ascii ''k'', ())] None = Some line \<and>
      rendering line = ascii ''{}'')"
proof -
  obtain l1 where l1: "log_extra_keys (\<lambda>_. Some (replicate 301 97), \<lambda>_. []) id None [] [(ascii ''k'', ())] None = Some l1"
    by (simp add: log_extra_keys_def)
  obtain l2 where l2: "log_extra_keys (\<lambda>_. None, \<lambda>_. ascii ''{}'') id None [] [(ascii ''k'', ())] None = Some l2"
    by (simp add: log_extra_keys_def)
  from log_extra_keys_rendering [OF l1]
  have "rendering l1 = replicate 300 97 @ ascii ''...'' \<and> length (rendering l1) \<le> 303"
    by (simp add: serialized_def ascii_dots)
  moreover from log_extra_keys_rendering [OF l2]
  have "rendering l2 = ascii ''{}''"
    by (simp add: serialized_def ascii_def)
  ultimately show ?thesis using l1 l2 by blast
qed

section \<open>Reasoning about the store\<close>

lemma bindE_simps [simp]: "bindE (Inr x) k = k x" "bindE (Inl e) k = Inl e"
  by (simp_all add: bindE_def)

lemma bindE_Inr_iff: "(bindE m k = Inr y) = (\<exists>x. m = Inr x \<and> k x = Inr y)"
  by (cases m) simp_all

lemma steps_append: "steps (xs @ ys) h = bindE (steps xs h) (steps ys)"
  by (induction xs arbitrary: h) (simp_all add: bindE_def split: sum.splits)

lemma cells_put [simp]:
  "cells (put r f v h) r' f' = (if r' = r \<and> f' = f then Some v else cells h r' f')"
  by (simp add: put_def)

lemma next_ref_put [simp]: "next_ref (put r f v h) = next_ref h"
  by (simp add: put_def)

lemma hasattr_simps [simp]:
  "hasattr h (VRef r) f = (cells h r f \<noteq> None)"
  "hasattr h VNone f = False" "hasattr h (VStr s) f = False" "hasattr h (VBool b) f = False"
  by (simp_all add: hasattr_def)

lemma getattr_ref [simp]:
  "getattr h (VRef r) f = (case cells h r f of Some v \<Rightarrow> Inr v | None \<Rightarrow> Inl (AttributeError f))"
  by (simp add: getattr_def)

lemma getattr_prim [simp]:
  "getattr h VNone f = Inl (AttributeError f)" "getattr h (VStr s) f = Inl (AttributeError f)"
  "getattr h (VBool b) f = Inl (AttributeError f)"
  by (simp_all add: getattr_def)

lemma setattr_simps [simp]:
  "setattr (VRef r) f v h = Inr (put r f v h)"
  "setattr VNone f v h = Inl (AttributeError f)" "setattr (VStr s) f v h = Inl (AttributeError f)"
  "setattr (VBool b) f v h = Inl (AttributeError f)"
  by (simp_all add: setattr_def)

text \<open>The store after \<open>new\<close>.\<close>

definition alloc :: "string \<Rightarrow> heap \<Rightarrow> heap" where
  "alloc cls h = snd (new cls h)"

lemma new_alloc: "new cls h = (next_ref h, alloc cls h)"
  by (simp add: alloc_def new_def)

lemma cells_alloc [simp]:
  "cells (alloc cls h) r f =
     (if r = next_ref h then (if f = ''__class__'' then Some (VStr (ascii cls)) else None) else cells h r f)"
  by (simp add: alloc_def new_def)

lemma next_ref_alloc [simp]: "next_ref (alloc cls h) = Suc (next_ref h)"
  by (simp add: alloc_def new_def)

text \<open>A store is well formed when every reference it holds is to an allocated object.\<close>

definition wf_heap :: "heap \<Rightarrow> bool" where
  "wf_heap h \<longleftrightarrow> (\<forall>r f m. cells h r f = Some (VRef m) \<longrightarrow> m < next_ref h)"

definition val_ok :: "heap \<Rightarrow> val \<Rightarrow> bool" where
  "val_ok h v \<longleftrightarrow> (\<forall>m. v = VRef m \<longrightarrow> m < next_ref h)"

lemma val_ok_simps [simp]:
  "val_ok h (VRef m) = (m < next_ref h)" "val_ok h VNone" "val_ok h (VStr s)" "val_ok h (VBool b)"
  by (simp_all add: val_ok_def)

lemma wf_heap_cell: "wf_heap h \<Longrightarrow> cells h r f = Some v \<Longrightarrow> val_ok h v"
  by (auto simp add: wf_heap_def val_ok_def)

lemma wf_heap_put: "wf_heap h \<Longrightarrow> val_ok h v \<Longrightarrow> wf_heap (put r f v h)"
  by (auto simp add: wf_heap_def val_ok_def)

lemma wf_heap_alloc: "wf_heap h \<Longrightarrow> wf_heap (alloc cls h)"
  by (auto simp add: wf_heap_def less_Suc_eq split: if_splits) 

lemma val_ok_mono: "val_ok h v \<Longrightarrow> next_ref h \<le> next_ref h' \<Longrightarrow> val_ok h' v"
  by (auto simp add: val_ok_def)

text \<open>
  What a run may have changed of the objects that existed before it: \<open>C\<close> is the set of
  their slots that may differ afterwards.  Nothing is ever deallocated, and a well-formed
  store stays well formed.
\<close>

definition effect :: "(ref \<times> string) set \<Rightarrow> heap \<Rightarrow> heap \<Rightarrow> bool" where
  "effect C h h' \<longleftrightarrow>
     next_ref h \<le> next_ref h' \<and> (wf_heap h \<longrightarrow> wf_heap h') \<and>
     (\<forall>r f. r < next_ref h \<longrightarrow> (r, f) \<notin> C \<longrightarrow> cells h' r f = cells h r f)"

lemma effect_refl: "effect C h h"
  by (simp add: effect_def)

lemma effect_mono: "effect C h h' \<Longrightarrow> C \<subseteq> C' \<Longrightarrow> effect C' h h'"
  unfolding effect_def by blast

lemma effect_trans:
  assumes "effect C h h1" "effect C h1 h2"
  shows "effect C h h2"
proof -
  have t: "next_ref h \<le> next_ref h1" "next_ref h1 \<le> next_ref h2"
    using assms by (simp_all add: effect_def)
  have "cells h2 r f = cells h r f" if "r < next_ref h" "(r, f) \<notin> C" for r f
  proof -
    have "cells h2 r f = cells h1 r f" using assms(2) that t unfolding effect_def by simp
    also have "\<dots> = cells h r f" using assms(1) that unfolding effect_def by simp
    finally show ?thesis .
  qed
  with t assms show ?thesis unfolding effect_def by auto
qed

lemma effect_trans2: "effect C1 h h1 \<Longrightarrow> effect C2 h1 h2 \<Longrightarrow> effect (C1 \<union> C2) h h2"
  by (rule effect_trans [of _ _ h1]) (auto elim: effect_mono)

lemma effect_next_ref: "effect C h h' \<Longrightarrow> next_ref h \<le> next_ref h'"
  by (simp add: effect_def)

lemma effect_wf: "effect C h h' \<Longrightarrow> wf_heap h \<Longrightarrow> wf_heap h'"
  by (simp add: effect_def)

lemma effect_kept: "effect C h h' \<Longrightarrow> r < next_ref h \<Longrightarrow> (r, f) \<notin> C \<Longrightarrow> cells h' r f = cells h r f"
  by (simp add: effect_def)

lemma effect_put: "(wf_heap h \<Longrightarrow> val_ok h v) \<Longrightarrow> effect {(r, f)} h (put r f v h)"
  by (auto simp add: effect_def wf_heap_put)

lemma effect_alloc: "effect {} h (alloc cls h)"
  by (auto simp add: effect_def wf_heap_alloc)

section \<open>Single statements\<close>

text \<open>
  Taking a field over from the origin, as a function on stores: \<open>chk\<close> tells whether the
  parent link is set only on an object that has one (\<open>_copy_attribute_from_origin\<close>) or
  unconditionally (the vehicle's statements, which raise on anything but an object).
\<close>

definition okp :: "bool \<Rightarrow> heap \<Rightarrow> ref \<Rightarrow> bool" where
  "okp chk h a = (chk \<longrightarrow> cells h a ''parent'' \<noteq> None)"

definition adopt :: "bool \<Rightarrow> ref \<Rightarrow> ref \<Rightarrow> string \<Rightarrow> heap \<Rightarrow> heap" where
  "adopt chk self org F h =
     (case cells h org F of
        None \<Rightarrow> h
      | Some v \<Rightarrow>
          (case v of
             VRef a \<Rightarrow> if okp chk (put self F v h) a
                        then put a ''parent'' (VRef self) (put self F v h)
                        else put self F v h
           | _ \<Rightarrow> put self F v h))"

definition adopted :: "bool \<Rightarrow> heap \<Rightarrow> ref \<Rightarrow> string list \<Rightarrow> ref set" where
  "adopted chk h org Fs = {a. \<exists>F\<in>set Fs. cells h org F = Some (VRef a) \<and> okp chk h a}"

lemma copy_attribute_adopt:
  "copy_attribute_from_origin self (VRef org) F h = Inr (adopt True self org F h)"
  by (auto simp add: copy_attribute_from_origin_def adopt_def okp_def split: option.splits val.splits)

lemma copy_attribute_prim:
  "\<forall>r. origin \<noteq> VRef r \<Longrightarrow> copy_attribute_from_origin self origin F h = Inr h"
  by (cases origin) (simp_all add: copy_attribute_from_origin_def)

lemma take_over_adopt:
  "cells h org F = Some (VRef a) \<Longrightarrow> take_over self (VRef org) F h = Inr (adopt False self org F h)"
  by (simp add: take_over_def adopt_def okp_def)

lemma take_over_Inr:
  "take_over self (VRef org) F h = Inr h' \<Longrightarrow> \<exists>a. cells h org F = Some (VRef a)"
  by (cases "cells h org F"; cases "the (cells h org F)") (auto simp add: take_over_def)

lemma take_over_if_present_adopt:
  "cells h org F = None \<or> (\<exists>a. cells h org F = Some (VRef a)) \<Longrightarrow>
   take_over_if_present self (VRef org) F h = Inr (adopt False self org F h)"
  by (auto simp add: take_over_if_present_def take_over_adopt) (simp add: adopt_def)

lemma take_over_if_present_Inr:
  "take_over_if_present self (VRef org) F h = Inr h' \<Longrightarrow>
   cells h org F = None \<or> (\<exists>a. cells h org F = Some (VRef a))"
  using take_over_Inr [of self org F h h']
  by (cases "cells h org F") (auto simp add: take_over_if_present_def)

lemma next_ref_adopt [simp]: "next_ref (adopt chk self org F h) = next_ref h"
  by (simp add: adopt_def split: option.splits val.splits)

lemma wf_heap_adopt: "wf_heap h \<Longrightarrow> self < next_ref h \<Longrightarrow> wf_heap (adopt chk self org F h)"
  by (auto simp add: adopt_def split: option.splits val.splits intro!: wf_heap_put dest: wf_heap_cell)

text \<open>The objects held in the fields \<open>Fs\<close> of \<open>org\<close>.\<close>

definition field_refs :: "heap \<Rightarrow> ref \<Rightarrow> string list \<Rightarrow> ref set" where
  "field_refs h org Fs = {a. \<exists>F\<in>set Fs. cells h org F = Some (VRef a)}"

lemma adopted_field_refs: "adopted chk h org Fs \<subseteq> field_refs h org Fs"
  by (auto simp add: adopted_def field_refs_def)

lemma cells_adopt:
  assumes "self \<noteq> org" "F \<noteq> ''parent''" "cells h org F \<noteq> Some (VRef self)"
  shows "cells (adopt chk self org F h) r f =
           (if r = self \<and> f = F \<and> cells h org F \<noteq> None then cells h org F
            else if f = ''parent'' \<and> r \<in> adopted chk h org [F] then Some (VRef self)
            else cells h r f)"
  using assms
  by (auto simp add: adopt_def adopted_def okp_def split: option.splits val.splits)

lemma cells_fold_adopt:
  assumes "self \<noteq> org" "''parent'' \<notin> set Fs" "\<forall>F\<in>set Fs. cells h org F \<noteq> Some (VRef self)"
  shows "cells (fold (adopt chk self org) Fs h) r f =
           (if r = self \<and> f \<in> set Fs \<and> cells h org f \<noteq> None then cells h org f
            else if f = ''parent'' \<and> r \<in> adopted chk h org Fs then Some (VRef self)
            else cells h r f)"
  using assms
proof (induction Fs arbitrary: h r f)
  case Nil
  then show ?case by (simp add: adopted_def)
next
  case (Cons F Fs)
  let ?h1 = "adopt chk self org F h"
  have F: "F \<noteq> ''parent''" "cells h org F \<noteq> Some (VRef self)" using Cons.prems by auto
  note c1 = cells_adopt [OF Cons.prems(1) F]
  have org: "\<And>g. g \<noteq> ''parent'' \<Longrightarrow> cells ?h1 org g = cells h org g"
    using Cons.prems(1) by (simp add: c1)
  have par: "\<And>a. okp chk ?h1 a = okp chk h a"
    using F(1) by (auto simp add: c1 adopted_def okp_def)
  have orgF: "cells ?h1 org G = cells h org G" if "G \<in> set Fs" for G
  proof -
    from that Cons.prems(2) have "G \<noteq> ''parent''" by auto
    then show ?thesis by (rule org)
  qed
  have ad: "adopted chk ?h1 org Fs = adopted chk h org Fs"
    unfolding adopted_def
    by (intro Collect_cong bex_cong refl) (simp add: orgF par)
  have pre: "\<forall>G\<in>set Fs. cells ?h1 org G \<noteq> Some (VRef self)"
    using Cons.prems(3) by (simp add: orgF)
  have IH: "cells (fold (adopt chk self org) Fs ?h1) r f =
           (if r = self \<and> f \<in> set Fs \<and> cells ?h1 org f \<noteq> None then cells ?h1 org f
            else if f = ''parent'' \<and> r \<in> adopted chk ?h1 org Fs then Some (VRef self)
            else cells ?h1 r f)"
    using Cons.IH [OF Cons.prems(1) _ pre] Cons.prems(2) by simp
  have un: "adopted chk h org (F # Fs) = adopted chk h org [F] \<union> adopted chk h org Fs"
    by (auto simp add: adopted_def)
  have "cells (fold (adopt chk self org) (F # Fs) h) r f =
           (if r = self \<and> f \<in> set Fs \<and> cells ?h1 org f \<noteq> None then cells ?h1 org f
            else if f = ''parent'' \<and> r \<in> adopted chk h org Fs then Some (VRef self)
            else cells ?h1 r f)"
    by (simp only: fold_simps comp_apply IH ad)
  also have "\<dots> =
           (if r = self \<and> f \<in> set (F # Fs) \<and> cells h org f \<noteq> None then cells h org f
            else if f = ''parent'' \<and> r \<in> adopted chk h org (F # Fs) then Some (VRef self)
            else cells h r f)"
  proof (cases "f \<in> set Fs")
    case True
    then have "f \<noteq> ''parent''" using Cons.prems(2) by auto
    have a: "cells ?h1 org f = cells h org f" using True by (rule orgF)
    have b: "cells ?h1 r f = (if r = self \<and> f = F \<and> cells h org F \<noteq> None then cells h org F else cells h r f)"
      using \<open>f \<noteq> ''parent''\<close> by (auto simp add: c1)
    show ?thesis unfolding a b using True \<open>f \<noteq> ''parent''\<close> by auto
  next
    case False
    then show ?thesis unfolding un using F(1) by (auto simp add: c1)
  qed
  finally show ?case .
qed

lemma next_ref_fold_adopt [simp]: "next_ref (fold (adopt chk self org) Fs h) = next_ref h"
  by (induction Fs arbitrary: h) simp_all

lemma wf_heap_fold_adopt: "wf_heap h \<Longrightarrow> self < next_ref h \<Longrightarrow> wf_heap (fold (adopt chk self org) Fs h)"
  by (induction Fs arbitrary: h) (simp_all add: wf_heap_adopt)

lemma effect_fold_adopt:
  assumes "self < next_ref h" "self \<noteq> org" "''parent'' \<notin> set Fs"
    "\<forall>F\<in>set Fs. cells h org F \<noteq> Some (VRef self)"
  shows "effect ({self} \<times> set Fs \<union> field_refs h org Fs \<times> {''parent''}) h
           (fold (adopt chk self org) Fs h)"
  unfolding effect_def
proof (intro conjI allI impI)
  fix r f
  assume "(r, f) \<notin> {self} \<times> set Fs \<union> field_refs h org Fs \<times> {''parent''}"
  then have "\<not> (r = self \<and> f \<in> set Fs)" "\<not> (f = ''parent'' \<and> r \<in> adopted chk h org Fs)"
    using adopted_field_refs [of chk h org Fs] by auto
  then show "cells (fold (adopt chk self org) Fs h) r f = cells h r f"
    unfolding cells_fold_adopt [OF assms(2,3,4)] by auto
qed (simp_all add: wf_heap_fold_adopt assms(1))

lemma steps_copy:
  "steps (map (copy_attribute_from_origin self (VRef org)) Fs) h = Inr (fold (adopt True self org) Fs h)"
  by (induction Fs arbitrary: h) (simp_all add: copy_attribute_adopt)

lemma steps_copy_prim:
  "\<forall>r. origin \<noteq> VRef r \<Longrightarrow> steps (map (copy_attribute_from_origin self origin) Fs) h = Inr h"
  by (induction Fs arbitrary: h) (simp_all add: copy_attribute_prim)


text \<open>A new attribute object, as a function on stores.\<close>

definition init_attr :: "string \<Rightarrow> ref \<Rightarrow> string \<Rightarrow> heap \<Rightarrow> heap" where
  "init_attr cls self F h = put self F (VRef (next_ref h)) (snd (Attribute cls F self h))"

lemma init_attribute_eq: "init_attribute cls self F h = Inr (init_attr cls self F h)"
  by (simp add: init_attribute_def init_attr_def Attribute_def new_alloc)

lemma next_ref_init_attr [simp]: "next_ref (init_attr cls self F h) = Suc (next_ref h)"
  by (simp add: init_attr_def Attribute_def new_alloc)

lemma cells_init_attr_old:
  "r < next_ref h \<Longrightarrow> cells (init_attr cls self F h) r f =
     (if r = self \<and> f = F then Some (VRef (next_ref h)) else cells h r f)"
  by (simp add: init_attr_def Attribute_def new_alloc)

lemma cells_init_attr_new:
  "self \<noteq> next_ref h \<Longrightarrow>
   cells (init_attr cls self F h) (next_ref h) ''value'' = Some VNone \<and>
   cells (init_attr cls self F h) (next_ref h) ''parent'' = Some (VRef self)"
  by (simp add: init_attr_def Attribute_def new_alloc)

lemma wf_heap_init_attr: "wf_heap h \<Longrightarrow> self < next_ref h \<Longrightarrow> wf_heap (init_attr cls self F h)"
  unfolding init_attr_def Attribute_def new_alloc
  by (simp add: wf_heap_put wf_heap_alloc)

lemma effect_init_attr:
  "self < next_ref h \<Longrightarrow> effect {(self, F)} h (init_attr cls self F h)"
  unfolding effect_def
  by (auto simp add: wf_heap_init_attr cells_init_attr_old)

text \<open>
  A field holding a default attribute: a new object (not below \<open>lo\<close>) whose value is
  \<open>None\<close> and whose parent is the holder.
\<close>

definition default_attr :: "ref \<Rightarrow> heap \<Rightarrow> ref \<Rightarrow> string \<Rightarrow> bool" where
  "default_attr lo h e F \<longleftrightarrow>
     (\<exists>a. lo \<le> a \<and> a < next_ref h \<and> a \<noteq> e \<and> cells h e F = Some (VRef a) \<and>
          cells h a ''value'' = Some VNone \<and> cells h a ''parent'' = Some (VRef e))"

lemma default_attr_init:
  "self < next_ref h \<Longrightarrow> lo \<le> next_ref h \<Longrightarrow> default_attr lo (init_attr cls self F h) self F"
  unfolding default_attr_def
  by (rule exI [of _ "next_ref h"]) (simp add: cells_init_attr_new cells_init_attr_old)

lemma default_attr_kept:
  assumes "default_attr lo h e F" "effect C h h'" "e < next_ref h" "(e, F) \<notin> C"
    "\<forall>(r, f)\<in>C. r < lo"
  shows "default_attr lo h' e F"
proof -
  from assms(1) obtain a where a: "lo \<le> a" "a < next_ref h" "a \<noteq> e" "cells h e F = Some (VRef a)"
    "cells h a ''value'' = Some VNone" "cells h a ''parent'' = Some (VRef e)"
    unfolding default_attr_def by blast
  have nc: "(a, f) \<notin> C" for f using a(1) assms(5) by fastforce
  have "cells h' e F = Some (VRef a)"
    using effect_kept [OF assms(2,3,4)] a(4) by simp
  moreover have "cells h' a ''value'' = Some VNone"
    using effect_kept [OF assms(2) a(2) nc] a(5) by simp
  moreover have "cells h' a ''parent'' = Some (VRef e)"
    using effect_kept [OF assms(2) a(2) nc] a(6) by simp
  moreover have "a < next_ref h'" using a(2) effect_next_ref [OF assms(2)] by simp
  ultimately show ?thesis unfolding default_attr_def using a(1,3) by blast
qed

lemma default_attr_lower: "default_attr lo h e F \<Longrightarrow> lo' \<le> lo \<Longrightarrow> default_attr lo' h e F"
  unfolding default_attr_def by (meson order_trans)

section \<open>The service partner\<close>

lemma GenericObject_init_eq [simp]:
  "GenericObject_init self oid parent origin h =
     Inr (put self ''parent'' parent (put self ''id'' (VStr (ascii oid)) h))"
  by (simp add: GenericObject_init_def)

text \<open>The value \<open>_copy_attributes_from_origin\<close> finds on the origin, \<open>None\<close> when there is none to copy.\<close>

definition origin_value :: "heap \<Rightarrow> val \<Rightarrow> string \<Rightarrow> val" where
  "origin_value h origin F =
     (case origin of
        VRef org \<Rightarrow>
          (case cells h org F of
             Some (VRef a) \<Rightarrow> (case cells h a ''value'' of Some v \<Rightarrow> v | None \<Rightarrow> VNone)
           | _ \<Rightarrow> VNone)
      | _ \<Rightarrow> VNone)"

lemma ServicePartner_migrate:
  assumes "origin \<noteq> VNone" "wf_heap h" "val_ok h origin"
  shows "\<exists>h' a. ServicePartner parent origin h = Inr (next_ref h, h') \<and>
           next_ref h < a \<and> a < next_ref h' \<and>
           cells h' (next_ref h) ''service_partner_id'' = Some (VRef a) \<and>
           cells h' a ''parent'' = Some (VRef (next_ref h)) \<and>
           cells h' a ''value'' = Some (origin_value h origin ''service_partner_id'') \<and>
           (\<forall>r<next_ref h. cells h' r = cells h r)"
proof -
  let ?self = "next_ref h"
  let ?h1 = "put ?self ''parent'' parent (put ?self ''id'' (VStr (ascii ''service_partner'')) (alloc ''ServicePartner'' h))"
  let ?h2 = "init_attr ''StringAttribute'' ?self ''service_partner_id'' ?h1"
  have n1: "next_ref ?h1 = Suc ?self" by simp
  have old2: "cells ?h2 r f = cells h r f" if "r < ?self" for r f
    using that by (simp add: cells_init_attr_old)
  have mine: "cells ?h2 ?self ''service_partner_id'' = Some (VRef (Suc ?self))"
    by (simp add: cells_init_attr_old)
  have new2: "cells ?h2 (Suc ?self) ''value'' = Some VNone" "cells ?h2 (Suc ?self) ''parent'' = Some (VRef ?self)"
    using cells_init_attr_new [of ?self ?h1 "''StringAttribute''" "''service_partner_id''"] by simp_all
  have run: "ServicePartner parent origin h =
      bindE (copy_attributes_from_origin ?self origin ?h1) (\<lambda>h'. Inr (?self, h'))"
    using assms(1) by (simp add: ServicePartner_def new_alloc)
  show ?thesis
  proof (cases "\<exists>org a v. origin = VRef org \<and> cells h org ''service_partner_id'' = Some (VRef a)
                  \<and> cells h a ''value'' = Some v \<and> v \<noteq> VNone")
    case True
    then obtain org a v where o: "origin = VRef org" "cells h org ''service_partner_id'' = Some (VRef a)"
      "cells h a ''value'' = Some v" "v \<noteq> VNone" by blast
    have lt: "org < ?self" using assms(3) o(1) by simp
    have lta: "a < ?self" using wf_heap_cell [OF assms(2) o(2)] by simp
    have c: "copy_attributes_from_origin ?self origin ?h1 = Inr (put (Suc ?self) ''value'' v ?h2)"
      using o lt lta
      by (simp add: copy_attributes_from_origin_def init_attribute_eq old2 mine new2 set_value_def)
    have ov: "origin_value h origin ''service_partner_id'' = v"
      using o by (simp add: origin_value_def)
    show ?thesis
      unfolding run c ov
      by (rule exI [of _ "put (Suc ?self) ''value'' v ?h2"], rule exI [of _ "Suc ?self"])
         (simp add: mine new2 old2 fun_eq_iff)
  next
    case False
    have ov: "origin_value h origin ''service_partner_id'' = VNone"
      using False by (auto simp add: origin_value_def split: val.splits option.splits)
    have c: "copy_attributes_from_origin ?self origin ?h1 = Inr ?h2 \<or>
             copy_attributes_from_origin ?self origin ?h1
               = Inr (init_attr ''StringAttribute'' ?self ''service_partner_id'' ?h2)"
    proof (cases origin)
      case (VRef org)
      have lt: "org < ?self" using assms(3) VRef by simp
      show ?thesis
      proof (cases "cells h org ''service_partner_id''")
        case None
        then show ?thesis using VRef lt
          by (simp add: copy_attributes_from_origin_def init_attribute_eq old2)
      next
        case (Some x)
        show ?thesis
        proof (cases x)
          case (VRef a)
          have lta: "a < ?self" using wf_heap_cell [OF assms(2)] Some VRef by fastforce
          show ?thesis
          proof (cases "cells h a ''value''")
            case None
            then show ?thesis using \<open>origin = VRef org\<close> Some VRef lt lta
              by (simp add: copy_attributes_from_origin_def init_attribute_eq old2)
          next
            case (Some v)
            then have "v = VNone" using False \<open>origin = VRef org\<close> \<open>cells h org ''service_partner_id'' = Some x\<close> VRef
              by auto
            then show ?thesis using \<open>origin = VRef org\<close> Some \<open>cells h org ''service_partner_id'' = Some x\<close> VRef lt lta
              by (simp add: copy_attributes_from_origin_def init_attribute_eq old2)
          qed
        qed (use \<open>origin = VRef org\<close> Some lt in
              \<open>simp_all add: copy_attributes_from_origin_def init_attribute_eq old2\<close>)
      qed
    qed (simp_all add: copy_attributes_from_origin_def init_attribute_eq)
    then show ?thesis
    proof
      assume c1: "copy_attributes_from_origin ?self origin ?h1 = Inr ?h2"
      show ?thesis unfolding run c1 ov
        by (rule exI [of _ ?h2], rule exI [of _ "Suc ?self"]) (simp add: mine new2 old2 fun_eq_iff)
    next
      let ?h3 = "init_attr ''StringAttribute'' ?self ''service_partner_id'' ?h2"
      assume c2: "copy_attributes_from_origin ?self origin ?h1 = Inr ?h3"
      have old3: "cells ?h3 r f = cells h r f" if "r < ?self" for r f
        using that by (simp add: cells_init_attr_old)
      have mine3: "cells ?h3 ?self ''service_partner_id'' = Some (VRef (Suc (Suc ?self)))"
        by (simp add: cells_init_attr_old)
      have new3: "cells ?h3 (Suc (Suc ?self)) ''value'' = Some VNone"
        "cells ?h3 (Suc (Suc ?self)) ''parent'' = Some (VRef ?self)"
        using cells_init_attr_new [of ?self ?h2 "''StringAttribute''" "''service_partner_id''"] by simp_all
      show ?thesis unfolding run c2 ov
        by (rule exI [of _ ?h3], rule exI [of _ "Suc (Suc ?self)"]) (simp add: mine3 new3 old3 fun_eq_iff)
    qed
  qed
qed

section \<open>Migrating a service partner\<close>

text \<open>A store with a service partner (object 0) whose identifier attribute (object 1) holds \<open>SP1\<close>.\<close>

definition service_heap :: heap where
  "service_heap =
     \<lparr>cells = (\<lambda>_. Map.empty)
        (0 := [''service_partner_id'' \<mapsto> VRef 1],
         1 := [''value'' \<mapsto> VStr (ascii ''SP1''), ''parent'' \<mapsto> VRef 0]),
      next_ref = 2\<rparr>"

text \<open>
  C9.  Migrating a service partner from an origin object always yields a new instance
  whose \<open>service_partner_id\<close> is a new attribute object with the new instance as parent.
  Its value is the origin's value when the origin has one that is not \<open>None\<close>, and the
  default \<open>None\<close> otherwise.  No object that existed before is written: the origin and its
  attribute, the attribute's parent link included, are as they were.
\<close>

theorem service_partner_migration:
  assumes "wf_heap h" "org < next_ref h"
  shows "\<exists>sp a h'. ServicePartner parent (VRef org) h = Inr (sp, h') \<and>
           next_ref h \<le> sp \<and> next_ref h \<le> a \<and> a \<noteq> sp \<and>
           cells h' sp ''service_partner_id'' = Some (VRef a) \<and>
           cells h' a ''parent'' = Some (VRef sp) \<and>
           cells h' a ''value'' = Some (origin_value h (VRef org) ''service_partner_id'') \<and>
           (\<forall>r<next_ref h. cells h' r = cells h r)"
proof -
  from ServicePartner_migrate [of "VRef org" h parent] assms
  obtain h' a where "ServicePartner parent (VRef org) h = Inr (next_ref h, h')"
    "next_ref h < a" "cells h' (next_ref h) ''service_partner_id'' = Some (VRef a)"
    "cells h' a ''parent'' = Some (VRef (next_ref h))"
    "cells h' a ''value'' = Some (origin_value h (VRef org) ''service_partner_id'')"
    "\<forall>r<next_ref h. cells h' r = cells h r"
    by auto
  then show ?thesis by (intro exI [of _ "next_ref h"] exI [of _ a] exI [of _ h']) simp
qed

lemma wf_service_heap: "wf_heap service_heap"
  by (auto simp add: wf_heap_def service_heap_def split: if_splits)

theorem service_partner_migration_witness:
  "\<exists>sp a h'. ServicePartner VNone (VRef 0) service_heap = Inr (sp, h') \<and>
      2 \<le> sp \<and> 2 \<le> a \<and>
      cells h' sp ''service_partner_id'' = Some (VRef a) \<and>
      cells h' a ''parent'' = Some (VRef sp) \<and>
      cells h' a ''value'' = Some (VStr (ascii ''SP1'')) \<and>
      cells h' 1 ''parent'' = Some (VRef 0) \<and>
      cells h' 1 ''value'' = Some (VStr (ascii ''SP1''))"
proof -
  have n: "next_ref service_heap = 2" by (simp add: service_heap_def)
  have v: "origin_value service_heap (VRef 0) ''service_partner_id'' = VStr (ascii ''SP1'')"
    by (simp add: origin_value_def service_heap_def)
  have c: "cells service_heap 1 ''parent'' = Some (VRef 0)" "cells service_heap 1 ''value'' = Some (VStr (ascii ''SP1''))"
    by (simp_all add: service_heap_def)
  from service_partner_migration [OF wf_service_heap, of 0 VNone]
  obtain sp a h' where r: "ServicePartner VNone (VRef 0) service_heap = Inr (sp, h')"
      "2 \<le> sp" "2 \<le> a"
      "cells h' sp ''service_partner_id'' = Some (VRef a)"
      "cells h' a ''parent'' = Some (VRef sp)"
      "cells h' a ''value'' = Some (VStr (ascii ''SP1''))"
      "\<forall>r<2. cells h' r = cells service_heap r"
    unfolding n v by auto
  from r(7) have "cells h' 1 = cells service_heap 1" by simp
  with c r show ?thesis by auto
qed

section \<open>Entities without nested objects\<close>

lemma effect_cut:
  "effect C h h' \<Longrightarrow> (\<And>r f. (r, f) \<in> C \<Longrightarrow> r < next_ref h \<Longrightarrow> (r, f) \<in> C') \<Longrightarrow> effect C' h h'"
  unfolding effect_def by blast

text \<open>The store after allocation and \<open>GenericObject.__init__\<close>.\<close>

definition base_obj :: "string \<Rightarrow> string \<Rightarrow> val \<Rightarrow> heap \<Rightarrow> heap" where
  "base_obj cls oid parent h =
     put (next_ref h) ''parent'' parent (put (next_ref h) ''id'' (VStr (ascii oid)) (alloc cls h))"

lemma next_ref_base_obj [simp]: "next_ref (base_obj cls oid parent h) = Suc (next_ref h)"
  by (simp add: base_obj_def)

lemma cells_base_obj:
  "cells (base_obj cls oid parent h) r f =
     (if r = next_ref h then
        (if f = ''parent'' then Some parent
         else if f = ''id'' then Some (VStr (ascii oid))
         else if f = ''__class__'' then Some (VStr (ascii cls)) else None)
      else cells h r f)"
  by (simp add: base_obj_def)

lemma wf_heap_base_obj: "wf_heap h \<Longrightarrow> val_ok h parent \<Longrightarrow> wf_heap (base_obj cls oid parent h)"
  unfolding base_obj_def
  by (intro wf_heap_put wf_heap_alloc) (auto simp add: val_ok_def less_Suc_eq)

lemma effect_base_obj: "(wf_heap h \<Longrightarrow> val_ok h parent) \<Longrightarrow> effect {} h (base_obj cls oid parent h)"
  unfolding effect_def by (auto simp add: cells_base_obj wf_heap_base_obj)

text \<open>A run of default initializations.\<close>

definition init_attrs :: "ref \<Rightarrow> (string \<times> string) list \<Rightarrow> heap \<Rightarrow> heap" where
  "init_attrs self CNs h = fold (\<lambda>(c, n). init_attr c self n) CNs h"

lemma init_attrs_simps [simp]:
  "init_attrs self [] h = h"
  "init_attrs self ((c, n) # CNs) h = init_attrs self CNs (init_attr c self n h)"
  by (simp_all add: init_attrs_def)

lemma steps_init:
  "steps (map (\<lambda>(c, n). init_attribute c self n) CNs) h = Inr (init_attrs self CNs h)"
  by (induction CNs arbitrary: h) (auto simp add: init_attribute_eq)

lemma steps_init_same:
  "steps (map (init_attribute c self) Fs) h = Inr (init_attrs self (map (Pair c) Fs) h)"
  by (induction Fs arbitrary: h) (auto simp add: init_attribute_eq)

lemma next_ref_init_attrs [simp]: "next_ref (init_attrs self CNs h) = next_ref h + length CNs"
  by (induction CNs arbitrary: h) auto

lemma effect_init_attrs:
  "self < next_ref h \<Longrightarrow> effect ({self} \<times> snd ` set CNs) h (init_attrs self CNs h)"
proof (induction CNs arbitrary: h)
  case Nil
  show ?case by (simp add: effect_refl)
next
  case (Cons cn CNs)
  obtain c n where cn: "cn = (c, n)" by (cases cn)
  have 1: "effect {(self, n)} h (init_attr c self n h)"
    using Cons.prems by (rule effect_init_attr)
  have 2: "effect ({self} \<times> snd ` set CNs) (init_attr c self n h) (init_attrs self CNs (init_attr c self n h))"
    by (rule Cons.IH) (use Cons.prems in simp)
  show ?case
    unfolding cn init_attrs_simps
    by (rule effect_mono [OF effect_trans2 [OF 1 2]]) auto
qed

lemma default_init_attrs:
  assumes "self < lo" "lo \<le> next_ref h" "distinct (map snd CNs)" "F \<in> snd ` set CNs"
  shows "default_attr lo (init_attrs self CNs h) self F"
  using assms
proof (induction CNs arbitrary: h)
  case Nil
  then show ?case by simp
next
  case (Cons cn CNs)
  obtain c n where cn: "cn = (c, n)" by (cases cn)
  let ?h1 = "init_attr c self n h"
  have s: "self < next_ref h" using Cons.prems(1,2) by simp
  show ?case
  proof (cases "F = n")
    case True
    have d: "default_attr lo ?h1 self F"
      unfolding True using s Cons.prems(2) by (rule default_attr_init)
    have e: "effect ({self} \<times> snd ` set CNs) ?h1 (init_attrs self CNs ?h1)"
      by (rule effect_init_attrs) (use s in simp)
    have nin: "(self, F) \<notin> {self} \<times> snd ` set CNs"
      using Cons.prems(3) True cn by auto
    show ?thesis
      unfolding cn init_attrs_simps
      by (rule default_attr_kept [OF d e _ nin]) (use s Cons.prems(1) in auto)
  next
    case False
    then have "F \<in> snd ` set CNs" using Cons.prems(4) cn by auto
    then show ?thesis
      unfolding cn init_attrs_simps
      using Cons.prems(1,2,3) by (intro Cons.IH) auto
  qed
qed

text \<open>
  \<open>Engine\<close>, \<open>ExteriorDimensions\<close> and \<open>Gearbox\<close> are one constructor up to the class, the
  identifier and the fields.
\<close>

definition leaf :: "string \<Rightarrow> string \<Rightarrow> string list \<Rightarrow> val \<Rightarrow> val \<Rightarrow> heap \<Rightarrow> error + (ref \<times> heap)" where
  "leaf cls oid Fs parent origin h =
     (let (self, h0) = new cls h in
      bindE
        (if origin \<noteq> VNone then
           steps (GenericObject_init self oid parent origin
                    # map (copy_attribute_from_origin self origin) Fs) h0
         else
           steps (GenericObject_init self oid parent VNone
                    # map (init_attribute ''StringAttribute'' self) Fs) h0)
        (\<lambda>h'. Inr (self, h')))"

lemma Engine_leaf: "Engine = leaf ''Engine'' ''engine'' [''type'', ''powerInKW'', ''capacityInLiters'']"
  by (simp add: fun_eq_iff Engine_def leaf_def new_alloc)

lemma ExteriorDimensions_leaf:
  "ExteriorDimensions = leaf ''ExteriorDimensions'' ''exteriorDimensions'' [''lengthInMm'', ''widthInMm'', ''heightInMm'']"
  by (simp add: fun_eq_iff ExteriorDimensions_def leaf_def new_alloc)

lemma Gearbox_leaf: "Gearbox = leaf ''Gearbox'' ''gearbox'' [''type'']"
  by (simp add: fun_eq_iff Gearbox_def leaf_def new_alloc)

lemma leaf_fresh:
  "leaf cls oid Fs parent VNone h =
     Inr (next_ref h, init_attrs (next_ref h) (map (Pair ''StringAttribute'') Fs) (base_obj cls oid parent h))"
  by (simp add: leaf_def new_alloc steps_init_same base_obj_def)

lemma leaf_migrate:
  "leaf cls oid Fs parent (VRef org) h =
     Inr (next_ref h, fold (adopt True (next_ref h) org) Fs (base_obj cls oid parent h))"
  by (simp add: leaf_def new_alloc steps_copy base_obj_def)

lemma leaf_prim:
  "origin \<noteq> VNone \<Longrightarrow> \<forall>r. origin \<noteq> VRef r \<Longrightarrow>
   leaf cls oid Fs parent origin h = Inr (next_ref h, base_obj cls oid parent h)"
  by (simp add: leaf_def new_alloc steps_copy_prim base_obj_def)

lemma leaf_total: "\<exists>h'. leaf cls oid Fs parent origin h = Inr (next_ref h, h')"
  by (cases origin) (simp_all add: leaf_fresh leaf_migrate leaf_prim)

text \<open>The store after migrating such an entity, slot by slot.\<close>

lemma cells_leaf_migrate:
  assumes "wf_heap h" "org < next_ref h" "''parent'' \<notin> set Fs"
  shows "cells (fold (adopt True (next_ref h) org) Fs (base_obj cls oid parent h)) r f =
           (if r = next_ref h then
              (if f \<in> set Fs \<and> cells h org f \<noteq> None then cells h org f
               else if f = ''parent'' then Some parent
               else if f = ''id'' then Some (VStr (ascii oid))
               else if f = ''__class__'' then Some (VStr (ascii cls)) else None)
            else if f = ''parent'' \<and> r \<in> adopted True h org Fs then Some (VRef (next_ref h))
            else cells h r f)"
proof -
  let ?b = "base_obj cls oid parent h"
  have lt: "m < next_ref h" if "cells h org F = Some (VRef m)" for F m
    using assms(1) that unfolding wf_heap_def by blast
  have org: "cells ?b org = cells h org"
    using assms(2) by (simp add: cells_base_obj fun_eq_iff)
  have noself: "\<forall>F\<in>set Fs. cells ?b org F \<noteq> Some (VRef (next_ref h))"
    unfolding org using lt by blast
  have okp: "okp True ?b a = okp True h a" if "cells h org F = Some (VRef a)" for a F
    using lt [OF that] by (simp add: okp_def cells_base_obj)
  have ad: "adopted True ?b org Fs = adopted True h org Fs"
    unfolding adopted_def org using okp by blast
  have nad: "next_ref h \<notin> adopted True h org Fs"
    unfolding adopted_def using lt by blast
  have ne: "next_ref h \<noteq> org" using assms(2) by simp
  show ?thesis
    unfolding cells_fold_adopt [OF ne assms(3) noself] ad org
    by (cases "r = next_ref h") (simp_all add: cells_base_obj nad)
qed

lemma wf_heap_leaf_migrate:
  "wf_heap h \<Longrightarrow> val_ok h parent \<Longrightarrow>
   wf_heap (fold (adopt True (next_ref h) org) Fs (base_obj cls oid parent h))"
  by (intro wf_heap_fold_adopt wf_heap_base_obj) simp_all

lemma effect_leaf_migrate:
  assumes "wf_heap h \<Longrightarrow> val_ok h parent" "wf_heap h" "org < next_ref h" "''parent'' \<notin> set Fs"
  shows "effect (field_refs h org Fs \<times> {''parent''}) h
           (fold (adopt True (next_ref h) org) Fs (base_obj cls oid parent h))"
  unfolding effect_def
proof (intro conjI allI impI)
  fix r f
  assume "r < next_ref h" "(r, f) \<notin> field_refs h org Fs \<times> {''parent''}"
  then show "cells (fold (adopt True (next_ref h) org) Fs (base_obj cls oid parent h)) r f = cells h r f"
    unfolding cells_leaf_migrate [OF assms(2,3,4)]
    using adopted_field_refs [of True h org Fs] by auto
qed (simp_all add: wf_heap_leaf_migrate assms)

lemma effect_leaf_fresh:
  assumes "wf_heap h \<Longrightarrow> val_ok h parent"
  shows "effect {} h (init_attrs (next_ref h) CNs (base_obj cls oid parent h))"
proof -
  have 1: "effect {} h (base_obj cls oid parent h)" using assms by (rule effect_base_obj)
  have 2: "effect ({next_ref h} \<times> snd ` set CNs) (base_obj cls oid parent h)
             (init_attrs (next_ref h) CNs (base_obj cls oid parent h))"
    by (rule effect_init_attrs) simp
  show ?thesis
    by (rule effect_cut [OF effect_trans2 [OF 1 2]]) auto
qed

text \<open>Whatever the origin, the constructor returns a new object and rewrites at most parent links of the origin's fields.\<close>

lemma leaf_effect:
  assumes "wf_heap h" "val_ok h parent" "val_ok h origin" "''parent'' \<notin> set Fs"
  shows "\<exists>h'. leaf cls oid Fs parent origin h = Inr (next_ref h, h') \<and> next_ref h < next_ref h' \<and>
           effect ((case origin of VRef org \<Rightarrow> field_refs h org Fs | _ \<Rightarrow> {}) \<times> {''parent''}) h h'"
proof (cases origin)
  case VNone
  show ?thesis unfolding VNone leaf_fresh
    using effect_leaf_fresh [of h parent "map (Pair ''StringAttribute'') Fs" cls oid] assms(2) by simp
next
  case (VRef org)
  then have "org < next_ref h" using assms(3) by simp
  then show ?thesis unfolding VRef leaf_migrate
    using effect_leaf_migrate [of h parent org Fs cls oid] assms by simp
next
  case (VStr s)
  then show ?thesis using leaf_prim [of origin cls oid Fs parent h] effect_base_obj [of h parent cls oid] assms(2)
    by simp
next
  case (VBool b)
  then show ?thesis using leaf_prim [of origin cls oid Fs parent h] effect_base_obj [of h parent cls oid] assms(2)
    by simp
qed

section \<open>The specification\<close>

text \<open>The origin handed to the constructor of a nested object: the origin's field, \<open>None\<close> when it has none.\<close>

definition nested_origin :: "heap \<Rightarrow> val \<Rightarrow> string \<Rightarrow> val" where
  "nested_origin h origin N =
     (case origin of
        VRef os \<Rightarrow> (case cells h os N of Some v \<Rightarrow> v | None \<Rightarrow> VNone)
      | _ \<Rightarrow> VNone)"

definition val_refs :: "heap \<Rightarrow> val \<Rightarrow> string list \<Rightarrow> ref set" where
  "val_refs h v Fs = (case v of VRef org \<Rightarrow> field_refs h org Fs | _ \<Rightarrow> {})"

lemma val_refs_simps [simp]:
  "val_refs h (VRef org) Fs = field_refs h org Fs" "val_refs h VNone Fs = {}"
  "val_refs h (VStr s) Fs = {}" "val_refs h (VBool b) Fs = {}"
  by (simp_all add: val_refs_def)

lemma copy_nested_eq:
  "copy_nested_object_from_origin self origin N ctor h =
     bindE (ctor (VRef self) (nested_origin h origin N) h)
       (\<lambda>(n, h1). setattr (VRef self) N (VRef n) h1)"
  by (cases origin)
     (auto simp add: copy_nested_object_from_origin_def nested_origin_def
        simp del: setattr_simps split: option.splits)

lemma val_ok_nested_origin: "wf_heap h \<Longrightarrow> val_ok h (nested_origin h origin N)"
  by (auto simp add: nested_origin_def split: val.splits option.splits dest: wf_heap_cell)

lemma field_refs_below: "wf_heap h \<Longrightarrow> a \<in> field_refs h org Fs \<Longrightarrow> a < next_ref h"
  unfolding field_refs_def wf_heap_def by blast

lemma val_refs_below: "wf_heap h \<Longrightarrow> a \<in> val_refs h v Fs \<Longrightarrow> a < next_ref h"
  by (cases v) (auto dest: field_refs_below)

text \<open>
  The statement creating a nested object through the constructor of its class and
  assigning it to a field of \<open>self\<close>.
\<close>

lemma nested_leaf_step:
  assumes "wf_heap h" "self < next_ref h" "val_ok h on" "''parent'' \<notin> set Fs" "distinct Fs"
  shows "\<exists>h'. bindE (leaf cls oid Fs (VRef self) on h) (\<lambda>(n, h1). setattr (VRef self) N (VRef n) h1) = Inr h' \<and>
           next_ref h < next_ref h' \<and>
           cells h' self N = Some (VRef (next_ref h)) \<and>
           effect (insert (self, N) (val_refs h on Fs \<times> {''parent''})) h h' \<and>
           (on = VNone \<longrightarrow> (\<forall>F\<in>set Fs. default_attr (Suc (next_ref h)) h' (next_ref h) F))"
proof -
  from leaf_effect [of h "VRef self" on Fs cls oid] assms
  obtain h1 where h1: "leaf cls oid Fs (VRef self) on h = Inr (next_ref h, h1)"
    "next_ref h < next_ref h1" "effect (val_refs h on Fs \<times> {''parent''}) h h1"
    by (auto simp add: val_refs_def)
  let ?h' = "put self N (VRef (next_ref h)) h1"
  have e2: "effect {(self, N)} h1 ?h'"
    by (rule effect_put) (use h1(2) in simp)
  have e: "effect (insert (self, N) (val_refs h on Fs \<times> {''parent''})) h ?h'"
    by (rule effect_mono [OF effect_trans2 [OF h1(3) e2]]) auto
  have d: "default_attr (Suc (next_ref h)) ?h' (next_ref h) F" if "on = VNone" "F \<in> set Fs" for F
  proof -
    let ?b = "base_obj cls oid (VRef self) h"
    have eq: "h1 = init_attrs (next_ref h) (map (Pair ''StringAttribute'') Fs) ?b"
      using h1(1) that(1) by (simp add: leaf_fresh)
    have d1: "default_attr (Suc (next_ref h)) h1 (next_ref h) F"
      unfolding eq
      by (rule default_init_attrs) (use that(2) assms(5) in \<open>auto simp add: comp_def image_iff\<close>)
    show ?thesis
      by (rule default_attr_kept [OF d1 e2]) (use assms(2) h1(2) in auto)
  qed
  show ?thesis
    by (rule exI [of _ ?h']) (use h1 e d in simp)
qed

definition spec_scalars :: "string list" where
  "spec_scalars = [''title'', ''manufacturing_date'', ''trim_level'', ''system_code'',
     ''system_model_id'', ''body'', ''exterior_colour'', ''model_year'', ''steering_wheel_position'']"

definition spec_defaults :: "(string \<times> string) list" where
  "spec_defaults = [(''StringAttribute'', ''title''), (''DateAttribute'', ''manufacturing_date''),
     (''StringAttribute'', ''trim_level''), (''StringAttribute'', ''system_code''),
     (''StringAttribute'', ''system_model_id''), (''StringAttribute'', ''body''),
     (''StringAttribute'', ''exterior_colour''), (''StringAttribute'', ''model_year''),
     (''EnumAttribute'', ''steering_wheel_position'')]"

definition dims_fields :: "string list" where
  "dims_fields = [''lengthInMm'', ''widthInMm'', ''heightInMm'']"

definition engine_fields :: "string list" where
  "engine_fields = [''type'', ''powerInKW'', ''capacityInLiters'']"

definition gearbox_fields :: "string list" where
  "gearbox_fields = [''type'']"

text \<open>The three nested constructions that end both branches of \<open>Specification.__init__\<close>.\<close>

definition nested3 :: "ref \<Rightarrow> val \<Rightarrow> heap \<Rightarrow> error + heap" where
  "nested3 self origin =
     steps [copy_nested_object_from_origin self origin ''exteriorDimensions'' ExteriorDimensions,
            copy_nested_object_from_origin self origin ''engine'' Engine,
            copy_nested_object_from_origin self origin ''gearbox'' Gearbox]"

text \<open>The objects whose parent link a migration from \<open>origin\<close> may rewrite.\<close>

definition nested_refs :: "heap \<Rightarrow> val \<Rightarrow> ref set" where
  "nested_refs h origin =
     val_refs h (nested_origin h origin ''exteriorDimensions'') dims_fields \<union>
     val_refs h (nested_origin h origin ''engine'') engine_fields \<union>
     val_refs h (nested_origin h origin ''gearbox'') gearbox_fields"

lemma nested_origin_kept:
  assumes "effect C h k" "val_ok h origin" "\<And>org. origin = VRef org \<Longrightarrow> (org, N) \<notin> C"
  shows "nested_origin k origin N = nested_origin h origin N"
proof (cases origin)
  case (VRef org)
  then have "cells k org N = cells h org N"
    using assms by (auto intro: effect_kept)
  then show ?thesis by (simp add: nested_origin_def VRef)
qed (simp_all add: nested_origin_def)

lemma val_refs_kept:
  assumes "effect C h k" "val_ok h v" "\<And>org F. v = VRef org \<Longrightarrow> F \<in> set Fs \<Longrightarrow> (org, F) \<notin> C"
  shows "val_refs k v Fs = val_refs h v Fs"
proof (cases v)
  case (VRef org)
  then have "cells k org F = cells h org F" if "F \<in> set Fs" for F
    using assms that by (auto intro: effect_kept)
  then show ?thesis unfolding VRef val_refs_simps field_refs_def by auto
qed simp_all

text \<open>A run of nested constructions, each given by field, class, identifier and fields of the class.\<close>

definition nested_all :: "ref \<Rightarrow> val \<Rightarrow> (string \<times> string \<times> string \<times> string list) list \<Rightarrow> heap \<Rightarrow> error + heap" where
  "nested_all self origin specs =
     steps (map (\<lambda>(N, cls, oid, Fs). copy_nested_object_from_origin self origin N (leaf cls oid Fs)) specs)"

definition nested_changed :: "ref \<Rightarrow> val \<Rightarrow> (string \<times> string \<times> string \<times> string list) list \<Rightarrow> heap \<Rightarrow> (ref \<times> string) set" where
  "nested_changed self origin specs k =
     {self} \<times> fst ` set specs \<union>
     (\<Union>(N, cls, oid, Fs)\<in>set specs. val_refs k (nested_origin k origin N) Fs) \<times> {''parent''}"

definition nested_ok :: "ref \<Rightarrow> val \<Rightarrow> (string \<times> string \<times> string \<times> string list) list \<Rightarrow> heap \<Rightarrow> bool" where
  "nested_ok self origin specs k \<longleftrightarrow>
     (\<forall>(N, cls, oid, Fs)\<in>set specs.
        ''parent'' \<notin> set Fs \<and> distinct Fs \<and> N \<noteq> ''parent'' \<and> nested_origin k origin N \<noteq> VRef self)"

lemma nested_all_run:
  assumes "wf_heap k" "self < next_ref k" "val_ok k origin" "origin \<noteq> VRef self"
    "nested_ok self origin specs k" "distinct (map fst specs)"
  shows "\<exists>k'. nested_all self origin specs k = Inr k' \<and> next_ref k \<le> next_ref k' \<and>
           effect (nested_changed self origin specs k) k k' \<and>
           (\<forall>(N, cls, oid, Fs)\<in>set specs. \<exists>n. next_ref k \<le> n \<and> n < next_ref k' \<and>
               cells k' self N = Some (VRef n) \<and>
               (nested_origin k origin N = VNone \<longrightarrow> (\<forall>F\<in>set Fs. default_attr (next_ref k) k' n F)))"
  using assms
proof (induction specs arbitrary: k)
  case Nil
  show ?case by (simp add: nested_all_def effect_refl)
next
  case (Cons sp specs)
  obtain N cls oid Fs where sp: "sp = (N, cls, oid, Fs)" by (cases sp)
  let ?on = "nested_origin k origin N"
  have ok1: "''parent'' \<notin> set Fs" "distinct Fs" "N \<noteq> ''parent''" "?on \<noteq> VRef self"
    using Cons.prems(5) by (simp_all add: nested_ok_def sp)
  have okr: "nested_ok self origin specs k"
    using Cons.prems(5) by (simp add: nested_ok_def)
  from nested_leaf_step [where h = k and self = self and on = "?on" and Fs = Fs
        and cls = cls and oid = oid and N = N,
      OF Cons.prems(1,2) val_ok_nested_origin [OF Cons.prems(1)] ok1(1,2)]
  obtain k1 where k1: "copy_nested_object_from_origin self origin N (leaf cls oid Fs) k = Inr k1"
      "next_ref k < next_ref k1" "cells k1 self N = Some (VRef (next_ref k))"
      "effect (insert (self, N) (val_refs k ?on Fs \<times> {''parent''})) k k1"
      "?on = VNone \<longrightarrow> (\<forall>F\<in>set Fs. default_attr (Suc (next_ref k)) k1 (next_ref k) F)"
    unfolding copy_nested_eq by blast
  let ?C1 = "insert (self, N) (val_refs k ?on Fs \<times> {''parent''})"
  have wf1: "wf_heap k1" using effect_wf [OF k1(4) Cons.prems(1)] .
  have s1: "self < next_ref k1" using Cons.prems(2) k1(2) by simp
  have v1: "val_ok k1 origin" using Cons.prems(3) k1(2) by (auto simp add: val_ok_def)
  have no: "nested_origin k1 origin M = nested_origin k origin M" if "M \<noteq> ''parent''" for M
    by (rule nested_origin_kept [OF k1(4) Cons.prems(3)]) (use that Cons.prems(4) in auto)
  have vr: "val_refs k1 (nested_origin k origin M) Gs = val_refs k (nested_origin k origin M) Gs"
    if "''parent'' \<notin> set Gs" "nested_origin k origin M \<noteq> VRef self" for M Gs
    by (rule val_refs_kept [OF k1(4) val_ok_nested_origin [OF Cons.prems(1)]]) (use that in auto)
  have okr1: "nested_ok self origin specs k1"
    using okr unfolding nested_ok_def by (auto simp add: no)
  have ch: "nested_changed self origin specs k1 = nested_changed self origin specs k"
  proof -
    have "val_refs k1 (nested_origin k1 origin M) Gs = val_refs k (nested_origin k origin M) Gs"
      if "(M, c, i, Gs) \<in> set specs" for M c i Gs
    proof -
      from that okr have "''parent'' \<notin> set Gs" "M \<noteq> ''parent''" "nested_origin k origin M \<noteq> VRef self"
        unfolding nested_ok_def by auto
      then show ?thesis by (simp add: no vr)
    qed
    then show ?thesis unfolding nested_changed_def by auto
  qed
  from Cons.IH [OF wf1 s1 v1 Cons.prems(4) okr1] Cons.prems(6)
  obtain k' where k': "nested_all self origin specs k1 = Inr k'" "next_ref k1 \<le> next_ref k'"
      "effect (nested_changed self origin specs k) k1 k'"
      "\<forall>(M, c, i, Gs)\<in>set specs. \<exists>n. next_ref k1 \<le> n \<and> n < next_ref k' \<and>
          cells k' self M = Some (VRef n) \<and>
          (nested_origin k1 origin M = VNone \<longrightarrow> (\<forall>F\<in>set Gs. default_attr (next_ref k1) k' n F))"
    unfolding ch by auto
  let ?Cr = "nested_changed self origin specs k"
  have run: "nested_all self origin (sp # specs) k = Inr k'"
    using k1(1) k'(1) by (simp add: nested_all_def sp)
  have eff: "effect (nested_changed self origin (sp # specs) k) k k'"
    by (rule effect_mono [OF effect_trans2 [OF k1(4) k'(3)]])
       (auto simp add: nested_changed_def sp)
  have Nnot: "(self, N) \<notin> ?Cr"
    using Cons.prems(6) ok1(3) by (force simp add: nested_changed_def sp)
  have below: "r < next_ref k" if "(r, f) \<in> ?Cr" for r f
    using that Cons.prems(1,2) unfolding nested_changed_def by (auto dest: val_refs_below)
  have first: "\<exists>n. next_ref k \<le> n \<and> n < next_ref k' \<and> cells k' self N = Some (VRef n) \<and>
      (?on = VNone \<longrightarrow> (\<forall>F\<in>set Fs. default_attr (next_ref k) k' n F))"
  proof (intro exI [of _ "next_ref k"] conjI impI ballI)
    show "cells k' self N = Some (VRef (next_ref k))"
      using effect_kept [OF k'(3) s1 Nnot] k1(3) by simp
    show "next_ref k < next_ref k'" using k1(2) k'(2) by simp
  next
    fix F assume "?on = VNone" "F \<in> set Fs"
    then have d: "default_attr (Suc (next_ref k)) k1 (next_ref k) F" using k1(5) by simp
    have nin: "(next_ref k, F) \<notin> ?Cr" using below [of "next_ref k" F] by auto
    have "default_attr (Suc (next_ref k)) k' (next_ref k) F"
      by (rule default_attr_kept [OF d k'(3) k1(2) nin]) (use below in fastforce)
    then show "default_attr (next_ref k) k' (next_ref k) F"
      by (rule default_attr_lower) simp
  qed simp
  have rest: "\<exists>n. next_ref k \<le> n \<and> n < next_ref k' \<and> cells k' self M = Some (VRef n) \<and>
      (nested_origin k origin M = VNone \<longrightarrow> (\<forall>F\<in>set Gs. default_attr (next_ref k) k' n F))"
    if m: "(M, c, i, Gs) \<in> set specs" for M c i Gs
  proof -
    from m okr have "M \<noteq> ''parent''" unfolding nested_ok_def by auto
    then have no': "nested_origin k1 origin M = nested_origin k origin M" by (rule no)
    from k'(4) m obtain n where n: "next_ref k1 \<le> n" "n < next_ref k'" "cells k' self M = Some (VRef n)"
      "nested_origin k1 origin M = VNone \<longrightarrow> (\<forall>F\<in>set Gs. default_attr (next_ref k1) k' n F)"
      by fastforce
    have "default_attr (next_ref k) k' n F" if "nested_origin k origin M = VNone" "F \<in> set Gs" for F
      by (rule default_attr_lower [of "next_ref k1"]) (use n(4) no' that k1(2) in auto)
    then show ?thesis using n k1(2) by (intro exI [of _ n]) auto
  qed
  show ?case
    apply (rule exI [of _ k'])
    using run eff first rest k1(2) k'(2) by (auto simp add: sp)
qed

lemma nested3_all:
  "nested3 self origin =
     nested_all self origin
       [(''exteriorDimensions'', ''ExteriorDimensions'', ''exteriorDimensions'', dims_fields),
        (''engine'', ''Engine'', ''engine'', engine_fields),
        (''gearbox'', ''Gearbox'', ''gearbox'', gearbox_fields)]"
  by (simp add: nested3_def nested_all_def Engine_leaf ExteriorDimensions_leaf Gearbox_leaf
        dims_fields_def engine_fields_def gearbox_fields_def)

definition nested_table :: "(string \<times> string \<times> string \<times> string list) list" where
  "nested_table =
     [(''exteriorDimensions'', ''ExteriorDimensions'', ''exteriorDimensions'', dims_fields),
      (''engine'', ''Engine'', ''engine'', engine_fields),
      (''gearbox'', ''Gearbox'', ''gearbox'', gearbox_fields)]"

text \<open>The store of \<open>Specification.__init__\<close> before the nested objects are made.\<close>

definition spec_pre :: "val \<Rightarrow> val \<Rightarrow> heap \<Rightarrow> heap" where
  "spec_pre parent origin h =
     (case origin of
        VNone \<Rightarrow> init_attrs (next_ref h) spec_defaults (base_obj ''Specification'' ''specification'' parent h)
      | VRef os \<Rightarrow> fold (adopt True (next_ref h) os) spec_scalars
                    (base_obj ''Specification'' ''specification'' parent h)
      | _ \<Rightarrow> base_obj ''Specification'' ''specification'' parent h)"

lemma bindE_steps_Nil [simp]: "bindE m (steps []) = m"
  by (cases m) simp_all

lemma copy_nested_fresh:
  "copy_nested_object_from_origin self VNone N ctor =
     (\<lambda>h. bindE (ctor (VRef self) VNone h) (\<lambda>(n, h1). setattr (VRef self) N (VRef n) h1))"
  by (rule ext) (simp add: copy_nested_eq nested_origin_def del: setattr_simps)

lemma nested3_fresh:
  "steps [(\<lambda>h. bindE (ExteriorDimensions (VRef self) VNone h) (\<lambda>(n, h1).
                    setattr (VRef self) ''exteriorDimensions'' (VRef n) h1)),
          (\<lambda>h. bindE (Engine (VRef self) VNone h) (\<lambda>(n, h1).
                    setattr (VRef self) ''engine'' (VRef n) h1)),
          (\<lambda>h. bindE (Gearbox (VRef self) VNone h) (\<lambda>(n, h1).
                    setattr (VRef self) ''gearbox'' (VRef n) h1))] = nested3 self VNone"
  by (simp add: nested3_def copy_nested_fresh del: setattr_simps)

lemma Specification_eq:
  "Specification parent origin h =
     bindE (nested3 (next_ref h) origin (spec_pre parent origin h)) (\<lambda>h'. Inr (next_ref h, h'))"
proof (cases origin)
  case VNone
  have eq: "initialize_attributes (next_ref h) =
          steps (map (\<lambda>(c, n). init_attribute c (next_ref h) n) spec_defaults
                 @ [nested3 (next_ref h) VNone])"
    unfolding nested3_fresh [symmetric]
    by (simp add: initialize_attributes_def spec_defaults_def fun_eq_iff bindE_def
          del: setattr_simps split: sum.splits)
  show ?thesis
    unfolding VNone Specification_def new_alloc Let_def prod.case eq
    by (simp add: spec_pre_def steps_append steps_init base_obj_def)
next
  case (VRef os)
  have eq: "steps [GenericObject_init (next_ref h) ''specification'' parent (VRef os),
                  copy_attribute_from_origin (next_ref h) (VRef os) ''title'',
                  copy_attribute_from_origin (next_ref h) (VRef os) ''manufacturing_date'',
                  copy_attribute_from_origin (next_ref h) (VRef os) ''trim_level'',
                  copy_attribute_from_origin (next_ref h) (VRef os) ''system_code'',
                  copy_attribute_from_origin (next_ref h) (VRef os) ''system_model_id'',
                  copy_attribute_from_origin (next_ref h) (VRef os) ''body'',
                  copy_attribute_from_origin (next_ref h) (VRef os) ''exterior_colour'',
                  copy_attribute_from_origin (next_ref h) (VRef os) ''model_year'',
                  copy_attribute_from_origin (next_ref h) (VRef os) ''steering_wheel_position'',
                  copy_nested_object_from_origin (next_ref h) (VRef os) ''exteriorDimensions'' ExteriorDimensions,
                  copy_nested_object_from_origin (next_ref h) (VRef os) ''engine'' Engine,
                  copy_nested_object_from_origin (next_ref h) (VRef os) ''gearbox'' Gearbox]
        = steps ([GenericObject_init (next_ref h) ''specification'' parent (VRef os)]
                 @ map (copy_attribute_from_origin (next_ref h) (VRef os)) spec_scalars
                 @ [nested3 (next_ref h) (VRef os)])"
    by (simp add: spec_scalars_def nested3_def fun_eq_iff bindE_def split: sum.splits)
  show ?thesis
    unfolding VRef Specification_def new_alloc Let_def prod.case eq
    by (simp add: spec_pre_def steps_append steps_copy base_obj_def)
next
  case (VStr s)
  show ?thesis
    by (simp add: VStr Specification_def new_alloc spec_pre_def nested3_def copy_attribute_prim
          base_obj_def bindE_def split: sum.splits)
next
  case (VBool b)
  show ?thesis
    by (simp add: VBool Specification_def new_alloc spec_pre_def nested3_def copy_attribute_prim
          base_obj_def bindE_def split: sum.splits)
qed

lemma nested_changed_table:
  "nested_changed self origin nested_table k =
     {self} \<times> {''exteriorDimensions'', ''engine'', ''gearbox''} \<union> nested_refs k origin \<times> {''parent''}"
  by (auto simp add: nested_changed_def nested_table_def nested_refs_def)

lemma spec_pre_facts:
  assumes "wf_heap h" "val_ok h parent" "val_ok h origin"
  shows "wf_heap (spec_pre parent origin h)"
    and "next_ref h < next_ref (spec_pre parent origin h)"
    and "effect (val_refs h origin spec_scalars \<times> {''parent''}) h (spec_pre parent origin h)"
proof -
  have p: "''parent'' \<notin> set spec_scalars" by (simp add: spec_scalars_def)
  have e: "effect (val_refs h origin spec_scalars \<times> {''parent''}) h (spec_pre parent origin h)"
  proof (cases origin)
    case VNone
    show ?thesis unfolding VNone spec_pre_def using effect_leaf_fresh [of h parent] assms(2) by simp
  next
    case (VRef os)
    then have "os < next_ref h" using assms(3) by simp
    then show ?thesis unfolding VRef spec_pre_def
      using effect_leaf_migrate [OF assms(2,1) _ p, of os] by simp
  next
    case (VStr s)
    show ?thesis unfolding VStr spec_pre_def using effect_base_obj [of h parent] assms(2) by simp
  next
    case (VBool b)
    show ?thesis unfolding VBool spec_pre_def using effect_base_obj [of h parent] assms(2) by simp
  qed
  then show "effect (val_refs h origin spec_scalars \<times> {''parent''}) h (spec_pre parent origin h)" .
  from e assms(1) show "wf_heap (spec_pre parent origin h)" by (rule effect_wf)
  show "next_ref h < next_ref (spec_pre parent origin h)"
    by (cases origin) (simp_all add: spec_pre_def)
qed

text \<open>What a run of the constructor of \<open>Specification\<close> leaves behind.\<close>

definition spec_result :: "val \<Rightarrow> val \<Rightarrow> heap \<Rightarrow> heap \<Rightarrow> bool" where
  "spec_result parent origin h h' \<longleftrightarrow>
     Specification parent origin h = Inr (next_ref h, h') \<and>
     next_ref h < next_ref h' \<and>
     effect ((val_refs h origin spec_scalars \<union> nested_refs h origin) \<times> {''parent''}) h h' \<and>
     effect (nested_changed (next_ref h) origin nested_table (spec_pre parent origin h))
       (spec_pre parent origin h) h' \<and>
     nested_refs (spec_pre parent origin h) origin = nested_refs h origin \<and>
     (\<forall>N cls oid Fs. (N, cls, oid, Fs) \<in> set nested_table \<longrightarrow>
       (\<exists>n. next_ref h < n \<and> n < next_ref h' \<and> cells h' (next_ref h) N = Some (VRef n) \<and>
           (nested_origin h origin N = VNone \<longrightarrow> (\<forall>F\<in>set Fs. default_attr (next_ref h) h' n F))))"

lemma spec_resultD:
  assumes "spec_result parent origin h h'"
  shows "Specification parent origin h = Inr (next_ref h, h')"
    and "next_ref h < next_ref h'"
    and "effect ((val_refs h origin spec_scalars \<union> nested_refs h origin) \<times> {''parent''}) h h'"
    and "effect (nested_changed (next_ref h) origin nested_table (spec_pre parent origin h))
       (spec_pre parent origin h) h'"
    and "nested_refs (spec_pre parent origin h) origin = nested_refs h origin"
    and "\<And>N cls oid Fs. (N, cls, oid, Fs) \<in> set nested_table \<Longrightarrow>
       \<exists>n. next_ref h < n \<and> n < next_ref h' \<and> cells h' (next_ref h) N = Some (VRef n) \<and>
           (nested_origin h origin N = VNone \<longrightarrow> (\<forall>F\<in>set Fs. default_attr (next_ref h) h' n F))"
  using assms unfolding spec_result_def by simp_all

lemma Specification_run:
  assumes "wf_heap h" "val_ok h parent" "val_ok h origin"
  shows "\<exists>h'. spec_result parent origin h h'"
proof -
  let ?s = "next_ref h"
  let ?k = "spec_pre parent origin h"
  note pre = spec_pre_facts [OF assms]
  have sk: "?s < next_ref ?k" by (rule pre(2))
  have vk: "val_ok ?k origin" using assms(3) sk by (auto simp add: val_ok_def)
  have ns: "origin \<noteq> VRef ?s" using assms(3) by auto
  have no: "nested_origin ?k origin N = nested_origin h origin N" if "N \<noteq> ''parent''" for N
    by (rule nested_origin_kept [OF pre(3) assms(3)]) (use that in auto)
  have nos: "nested_origin h origin N \<noteq> VRef ?s" for N
    using val_ok_nested_origin [OF assms(1), of origin N] by auto
  have vr: "val_refs ?k (nested_origin h origin N) Fs = val_refs h (nested_origin h origin N) Fs"
    if "''parent'' \<notin> set Fs" for N Fs
    by (rule val_refs_kept [OF pre(3) val_ok_nested_origin [OF assms(1)]]) (use that in auto)
  have nr: "nested_refs ?k origin = nested_refs h origin"
    unfolding nested_refs_def
    by (simp add: no vr dims_fields_def engine_fields_def gearbox_fields_def)
  have ok: "nested_ok ?s origin nested_table ?k"
    unfolding nested_ok_def nested_table_def
    by (simp add: no nos dims_fields_def engine_fields_def gearbox_fields_def)
  have dist: "distinct (map fst nested_table)" by (simp add: nested_table_def)
  from nested_all_run [OF pre(1) sk vk ns ok dist]
  obtain k' where k': "nested_all ?s origin nested_table ?k = Inr k'" "next_ref ?k \<le> next_ref k'"
      "effect (nested_changed ?s origin nested_table ?k) ?k k'"
      "\<forall>(N, cls, oid, Fs)\<in>set nested_table. \<exists>n. next_ref ?k \<le> n \<and> n < next_ref k' \<and>
          cells k' ?s N = Some (VRef n) \<and>
          (nested_origin ?k origin N = VNone \<longrightarrow> (\<forall>F\<in>set Fs. default_attr (next_ref ?k) k' n F))"
    by blast
  have run: "Specification parent origin h = Inr (?s, k')"
    unfolding Specification_eq nested3_all
    using k'(1) by (simp add: nested_table_def)
  have eff: "effect ((val_refs h origin spec_scalars \<union> nested_refs h origin) \<times> {''parent''}) h k'"
    by (rule effect_cut [OF effect_trans2 [OF pre(3) k'(3)]])
       (auto simp add: nested_changed_table nr)
  have nested: "\<exists>n. ?s < n \<and> n < next_ref k' \<and> cells k' ?s N = Some (VRef n) \<and>
           (nested_origin h origin N = VNone \<longrightarrow> (\<forall>F\<in>set Fs. default_attr ?s k' n F))"
    if m: "(N, cls, oid, Fs) \<in> set nested_table" for N cls oid Fs
  proof -
    from m have "N \<noteq> ''parent''" by (auto simp add: nested_table_def)
    then have no': "nested_origin ?k origin N = nested_origin h origin N" by (rule no)
    from k'(4) m obtain n where n: "next_ref ?k \<le> n" "n < next_ref k'" "cells k' ?s N = Some (VRef n)"
      "nested_origin ?k origin N = VNone \<longrightarrow> (\<forall>F\<in>set Fs. default_attr (next_ref ?k) k' n F)"
      by fastforce
    have "default_attr ?s k' n F" if "nested_origin h origin N = VNone" "F \<in> set Fs" for F
      by (rule default_attr_lower [of "next_ref ?k"]) (use n(4) no' that sk in auto)
    then show ?thesis using n sk by (intro exI [of _ n]) auto
  qed
  have lt: "next_ref h < next_ref k'" using sk k'(2) by simp
  show ?thesis
    unfolding spec_result_def
    by (intro exI [of _ k'] conjI allI impI run lt eff k'(3) nr nested)
qed

lemma Specification_total: "wf_heap h \<Longrightarrow> val_ok h parent \<Longrightarrow> val_ok h origin \<Longrightarrow>
  \<exists>h'. Specification parent origin h = Inr (next_ref h, h')"
  using Specification_run [of h parent origin] spec_resultD(1) by blast

lemma Specification_migrate_scalar:
  assumes "wf_heap h" "val_ok h parent" "os < next_ref h" "F \<in> set spec_scalars"
    and run: "Specification parent (VRef os) h = Inr (s, h')"
  shows "s = next_ref h"
    and "cells h' s F = cells h os F"
    and "cells h os F = Some (VRef a) \<Longrightarrow> cells h a ''parent'' \<noteq> None \<Longrightarrow>
         a \<notin> nested_refs h (VRef os) \<Longrightarrow> cells h' a ''parent'' = Some (VRef s)"
    and "r < next_ref h \<Longrightarrow> f \<noteq> ''parent'' \<Longrightarrow> cells h' r f = cells h r f"
proof -
  let ?k = "spec_pre parent (VRef os) h"
  have vo: "val_ok h (VRef os)" using assms(3) by simp
  from Specification_run [OF assms(1,2) vo]
  obtain k' where "spec_result parent (VRef os) h k'" ..
  note k' = spec_resultD [OF this]
  from run k'(1) have eq: "s = next_ref h" "h' = k'" by simp_all
  show "s = next_ref h" by (rule eq)
  have p: "''parent'' \<notin> set spec_scalars" by (simp add: spec_scalars_def)
  have ck: "cells ?k r f =
     (if r = next_ref h then
        (if f \<in> set spec_scalars \<and> cells h os f \<noteq> None then cells h os f
         else if f = ''parent'' then Some parent
         else if f = ''id'' then Some (VStr (ascii ''specification''))
         else if f = ''__class__'' then Some (VStr (ascii ''Specification'')) else None)
      else if f = ''parent'' \<and> r \<in> adopted True h os spec_scalars then Some (VRef (next_ref h))
      else cells h r f)" for r f
    unfolding spec_pre_def val.case by (rule cells_leaf_migrate [OF assms(1,3) p])
  have nk: "next_ref h < next_ref ?k" by (simp add: spec_pre_def)
  have Fn: "F \<notin> {''exteriorDimensions'', ''engine'', ''gearbox'', ''parent'', ''id'', ''__class__''}"
    using assms(4) by (auto simp add: spec_scalars_def)
  have "cells k' (next_ref h) F = cells ?k (next_ref h) F"
    by (rule effect_kept [OF k'(4) nk]) (use Fn in \<open>auto simp add: nested_changed_table\<close>)
  also have "\<dots> = cells h os F" using Fn assms(4) by (auto simp add: ck)
  finally show "cells h' s F = cells h os F" unfolding eq .
  show "cells h' r f = cells h r f" if "r < next_ref h" "f \<noteq> ''parent''"
    unfolding eq by (rule effect_kept [OF k'(3) that(1)]) (use that(2) in auto)
  show "cells h' a ''parent'' = Some (VRef s)"
    if a: "cells h os F = Some (VRef a)" "cells h a ''parent'' \<noteq> None" "a \<notin> nested_refs h (VRef os)"
  proof -
    have lt: "a < next_ref h" using wf_heap_cell [OF assms(1) a(1)] by simp
    have ad: "a \<in> adopted True h os spec_scalars"
      using a(1,2) assms(4) by (auto simp add: adopted_def okp_def)
    have "cells k' a ''parent'' = cells ?k a ''parent''"
      by (rule effect_kept [OF k'(4)])
         (use lt nk a(3) in \<open>auto simp add: nested_changed_table k'(5)\<close>)
    also have "\<dots> = Some (VRef (next_ref h))" using lt ad by (simp add: ck)
    finally show ?thesis unfolding eq .
  qed
qed

lemma Specification_absent_scalar:
  assumes "wf_heap h" "val_ok h parent" "os < next_ref h" "F \<in> set spec_scalars"
    and "Specification parent (VRef os) h = Inr (s, h')" "cells h os F = None"
  shows "cells h' s F = None"
  using Specification_migrate_scalar(2) [OF assms(1-5)] assms(6) by simp

lemma Specification_nested:
  assumes "wf_heap h" "val_ok h parent" "val_ok h origin"
    and run: "Specification parent origin h = Inr (s, h')"
    and "(N, cls, oid, Fs) \<in> set nested_table"
  shows "\<exists>n. next_ref h < n \<and> n < next_ref h' \<and> cells h' s N = Some (VRef n) \<and>
           (nested_origin h origin N = VNone \<longrightarrow> (\<forall>F\<in>set Fs. default_attr (next_ref h) h' n F))"
proof -
  from Specification_run [OF assms(1,2,3)]
  obtain k' where "spec_result parent origin h k'" ..
  note k' = spec_resultD [OF this]
  from run k'(1) have eq: "s = next_ref h" "h' = k'" by simp_all
  show ?thesis unfolding eq by (rule k'(6) [OF assms(5)])
qed

lemma Specification_fresh:
  assumes "wf_heap h" "val_ok h parent"
    and run: "Specification parent VNone h = Inr (s, h')"
  shows "s = next_ref h"
    and "F \<in> set spec_scalars \<Longrightarrow> default_attr (next_ref h) h' s F"
    and "f \<notin> set spec_scalars \<Longrightarrow> f \<notin> {''exteriorDimensions'', ''engine'', ''gearbox'', ''parent'', ''id'', ''__class__''}
           \<Longrightarrow> cells h' s f = None"
    and "r < next_ref h \<Longrightarrow> cells h' r f = cells h r f"
proof -
  let ?b = "base_obj ''Specification'' ''specification'' parent h"
  let ?k = "spec_pre parent VNone h"
  have vn: "val_ok h VNone" by simp
  from Specification_run [OF assms(1,2) vn]
  obtain k' where "spec_result parent VNone h k'" ..
  note k' = spec_resultD [OF this]
  from run k'(1) have eq: "s = next_ref h" "h' = k'" by simp_all
  show "s = next_ref h" by (rule eq)
  have k: "?k = init_attrs (next_ref h) spec_defaults ?b" by (simp add: spec_pre_def)
  have nk: "next_ref h < next_ref ?k" by (simp add: k)
  have nr: "nested_refs x VNone = {}" for x by (simp add: nested_refs_def nested_origin_def)
  have names: "snd ` set spec_defaults = set spec_scalars"
    by (simp add: spec_defaults_def spec_scalars_def)
  show "cells h' r f = cells h r f" if "r < next_ref h"
    unfolding eq by (rule effect_kept [OF k'(3) that]) (simp add: nr)
  show "default_attr (next_ref h) h' s F" if F: "F \<in> set spec_scalars"
  proof -
    have d: "default_attr (Suc (next_ref h)) ?k (next_ref h) F"
      unfolding k
      by (rule default_init_attrs) (use F in \<open>simp_all add: names\<close>, simp add: spec_defaults_def)
    have Fn: "F \<notin> {''exteriorDimensions'', ''engine'', ''gearbox''}"
      using F by (auto simp add: spec_scalars_def)
    have "default_attr (Suc (next_ref h)) k' (next_ref h) F"
      by (rule default_attr_kept [OF d k'(4) nk])
         (use Fn in \<open>auto simp add: nested_changed_table nr\<close>)
    then show ?thesis unfolding eq by (rule default_attr_lower) simp
  qed
  show "cells h' s f = None"
    if f: "f \<notin> set spec_scalars"
      "f \<notin> {''exteriorDimensions'', ''engine'', ''gearbox'', ''parent'', ''id'', ''__class__''}"
  proof -
    have "cells k' (next_ref h) f = cells ?k (next_ref h) f"
      by (rule effect_kept [OF k'(4) nk]) (use f in \<open>auto simp add: nested_changed_table nr\<close>)
    also have "\<dots> = cells ?b (next_ref h) f"
      unfolding k
      by (rule effect_kept [OF effect_init_attrs]) (use f in \<open>auto simp add: names\<close>)
    also have "\<dots> = None" using f by (simp add: cells_base_obj)
    finally show ?thesis unfolding eq .
  qed
qed

section \<open>Statements of the vehicle constructors\<close>

text \<open>
  A statement is sound for \<open>C\<close> when, run in a well-formed store where \<open>self\<close> and the
  values \<open>vs\<close> it is given are allocated, it changes at most the slots \<open>C\<close> of the objects
  that existed.
\<close>

definition sound :: "(ref \<times> string) set \<Rightarrow> ref \<Rightarrow> val list \<Rightarrow> (heap \<Rightarrow> error + heap) \<Rightarrow> bool" where
  "sound C self vs s \<longleftrightarrow>
     (\<forall>k k'. wf_heap k \<longrightarrow> self < next_ref k \<longrightarrow> (\<forall>v\<in>set vs. val_ok k v) \<longrightarrow> s k = Inr k'
        \<longrightarrow> effect C k k')"

lemma soundI:
  "(\<And>k k'. wf_heap k \<Longrightarrow> self < next_ref k \<Longrightarrow> (\<And>v. v \<in> set vs \<Longrightarrow> val_ok k v) \<Longrightarrow> s k = Inr k'
      \<Longrightarrow> effect C k k') \<Longrightarrow> sound C self vs s"
  unfolding sound_def by blast

lemma soundD:
  "sound C self vs s \<Longrightarrow> wf_heap k \<Longrightarrow> self < next_ref k \<Longrightarrow> (\<And>v. v \<in> set vs \<Longrightarrow> val_ok k v) \<Longrightarrow>
   s k = Inr k' \<Longrightarrow> effect C k k'"
  unfolding sound_def by blast

lemma sound_mono: "sound C self vs s \<Longrightarrow> C \<subseteq> C' \<Longrightarrow> sound C' self vs s"
  unfolding sound_def by (blast intro: effect_mono)

lemma sound_steps:
  assumes "\<And>s. s \<in> set ss \<Longrightarrow> sound C self vs s"
  shows "sound C self vs (steps ss)"
  using assms
proof (induction ss)
  case Nil
  show ?case by (rule soundI) (simp add: effect_refl)
next
  case (Cons s ss)
  show ?case
  proof (rule soundI)
    fix k k'
    assume k: "wf_heap k" "self < next_ref k" "\<And>v. v \<in> set vs \<Longrightarrow> val_ok k v"
      and run: "steps (s # ss) k = Inr k'"
    from run obtain k1 where k1: "s k = Inr k1" "steps ss k1 = Inr k'"
      by (cases "s k") simp_all
    have e1: "effect C k k1"
      by (rule soundD [OF Cons.prems [of s] k k1(1)]) simp_all
    have w1: "wf_heap k1" using effect_wf [OF e1 k(1)] .
    have n1: "next_ref k \<le> next_ref k1" using effect_next_ref [OF e1] .
    have e2: "effect C k1 k'"
    proof (rule soundD [OF Cons.IH w1 _ _ k1(2)])
      show "self < next_ref k1" using k(2) n1 by simp
      show "val_ok k1 v" if "v \<in> set vs" for v using val_ok_mono [OF k(3) [OF that] n1] .
      show "sound C self vs t" if "t \<in> set ss" for t using Cons.prems [of t] that by simp
    qed
    show "effect C k k'" using effect_trans [OF e1 e2] .
  qed
qed

lemma sound_if:
  "sound C self vs s \<Longrightarrow> sound C self vs t \<Longrightarrow> sound C self vs (\<lambda>h. if b h then s h else t h)"
  unfolding sound_def by simp

lemma sound_skip: "sound C self vs Inr"
  by (rule soundI) (simp add: effect_refl)

text \<open>The slots a vehicle constructor may change: fields of \<open>self\<close>, parent links and values.\<close>

definition K :: "ref \<Rightarrow> (ref \<times> string) set" where
  "K self = {self} \<times> UNIV \<union> UNIV \<times> {''parent'', ''value''}"

lemma K_simps [simp]: "(self, f) \<in> K self" "(r, ''parent'') \<in> K self" "(r, ''value'') \<in> K self"
  by (simp_all add: K_def)

lemma effect_put_K:
  "(wf_heap h \<Longrightarrow> val_ok h v) \<Longrightarrow> (r, f) \<in> K self \<Longrightarrow> effect (K self) h (put r f v h)"
  by (rule effect_mono [OF effect_put]) auto

lemma effect_after:
  assumes "effect C h k" "next_ref h \<le> r \<or> (r, f) \<in> C" "wf_heap k \<Longrightarrow> val_ok k v"
  shows "effect C h (put r f v k)"
proof -
  have "effect ({(r, f)}) k (put r f v k)" using assms(3) by (rule effect_put)
  from effect_trans2 [OF assms(1) this] show ?thesis
    by (rule effect_cut) (use assms(2) in auto)
qed

lemma effect_adopt_K:
  assumes "wf_heap k" "self < next_ref k"
  shows "effect (K self) k (adopt chk self org F k)"
proof (cases "cells k org F")
  case None
  then show ?thesis by (simp add: adopt_def effect_refl)
next
  case (Some v)
  have ok: "val_ok k v" using wf_heap_cell [OF assms(1) Some] .
  have e1: "effect (K self) k (put self F v k)"
    by (rule effect_put_K) (simp_all add: ok)
  show ?thesis
  proof (cases v)
    case (VRef a)
    have e2: "effect (K self) k (put a ''parent'' (VRef self) (put self F v k))"
      by (rule effect_after [OF e1]) (use assms(2) in simp_all)
    show ?thesis using e1 e2 by (simp add: adopt_def Some VRef)
  qed (use e1 in \<open>simp_all add: adopt_def Some\<close>)
qed

lemma sound_put: "v \<in> set vs \<Longrightarrow> sound (K self) self vs (\<lambda>h. Inr (put self f v h))"
  by (rule soundI) (auto intro: effect_put_K)

lemma sound_take_over: "sound (K self) self vs (take_over self origin F)"
proof (rule soundI)
  fix k k' assume k: "wf_heap k" "self < next_ref k" and run: "take_over self origin F k = Inr k'"
  from run obtain org where o: "origin = VRef org"
    by (cases origin) (simp_all add: take_over_def)
  from take_over_Inr [OF run [unfolded o]] obtain a where a: "cells k org F = Some (VRef a)" ..
  from run have "k' = adopt False self org F k" unfolding o take_over_adopt [OF a] by simp
  then show "effect (K self) k k'" using effect_adopt_K [OF k] by simp
qed

lemma sound_take_over_if_present: "sound (K self) self vs (take_over_if_present self origin F)"
  unfolding take_over_if_present_def
  by (rule sound_if [OF sound_take_over sound_skip [unfolded fun_eq_iff]])

lemma sound_init_attribute: "sound (K self) self vs (init_attribute cls self F)"
  by (rule soundI) (auto simp add: init_attribute_eq intro: effect_mono [OF effect_init_attr])

end
